theory Spec2Isabelle
  imports Complex_Main "HOL-Library.Multiset" "HOL-Library.Log_Nat"
begin

section \<open>Python and pygame values\<close>

text \<open>
  Python's unbounded integers are \<open>int\<close>. A Python float is a double, and a finite double
  is a rational number, so floats are values of \<open>rat\<close>. Exceptions are values of
  \<open>py_error\<close>; a function that can raise returns \<open>py_error + 'a\<close> with \<open>Inl\<close> for
  the exception.
\<close>

datatype py_error =
    ZeroDivisionError
  | OverflowError
  | JSONDecodeError
  | AttributeError
  | FileNotFoundError
  | PermissionError

text \<open>Python's \<open>int(x)\<close> on a float, and C's \<open>trunc\<close>: truncation toward zero.\<close>

definition py_int :: "rat \<Rightarrow> int" where
  "py_int q = (if 0 \<le> q then \<lfloor>q\<rfloor> else \<lceil>q\<rceil>)"

text \<open>C integer division by two (truncating), which pygame uses for the centre of a rect.\<close>

definition c_half :: "int \<Rightarrow> int" where
  "c_half n = (if 0 \<le> n then n div 2 else - ((- n) div 2))"

subsection \<open>Doubles\<close>

text \<open>
  The finite doubles are the numbers \<open>m * 2 ^ e\<close> with \<open>\<bar>m\<bar> < 2 ^ 53\<close> and
  \<open>- 1074 \<le> e \<le> 971\<close>. An arithmetic operation on doubles returns the double nearest to
  the exact result, a tie going to the even mantissa. \<open>double_exp q\<close> is the exponent of the
  last mantissa bit of the doubles around \<open>q\<close> (\<open>- 1074\<close> in the subnormal range), and
  \<open>round_double q\<close> is \<open>q\<close> rounded to a multiple of \<open>2 ^ double_exp q\<close>.
\<close>

definition pow2 :: "int \<Rightarrow> rat" where
  "pow2 e = power_int 2 e"

definition round_half_even :: "rat \<Rightarrow> int" where
  "round_half_even q =
     (let f = \<lfloor>q\<rfloor>; r = q - rat_of_int f
      in if r < 1 / 2 then f
         else if 1 / 2 < r then f + 1
         else if even f then f else f + 1)"

definition double_exp :: "rat \<Rightarrow> int" where
  "double_exp q = max (- 1074) (bitlen \<lfloor>\<bar>q\<bar> * 2 ^ 1074\<rfloor> - 1127)"

definition round_double :: "rat \<Rightarrow> rat" where
  "round_double q =
     rat_of_int (round_half_even (q / pow2 (double_exp q))) * pow2 (double_exp q)"

text \<open>
  The conversion of an integer to a float and the true division \<open>/\<close> of two integers
  round the exact value in the same way and raise \<open>OverflowError\<close> when the rounded value
  is beyond the largest double.
\<close>

definition to_double :: "rat \<Rightarrow> py_error + rat" where
  "to_double q =
     (if 2 ^ 1024 \<le> \<bar>round_double q\<bar> then Inl OverflowError else Inr (round_double q))"

text \<open>C's \<open>fmod\<close> for a divisor that is not zero; its result is exact.\<close>

definition c_fmod :: "rat \<Rightarrow> rat \<Rightarrow> rat" where
  "c_fmod x y = x - rat_of_int (py_int (x / y)) * y"

text \<open>
  The floor division \<open>vx // wx\<close> and the remainder \<open>vx % wx\<close> of two floats with
  \<open>wx\<close> not zero, as CPython's \<open>_float_div_mod\<close> and \<open>float_rem\<close> compute them: the
  quotient is \<open>(vx - fmod(vx, wx)) / wx\<close>, lowered by one when the remainder and the divisor
  differ in sign, then floored and moved up by one when the floor is more than one half
  below it.
\<close>

definition float_floordiv :: "rat \<Rightarrow> rat \<Rightarrow> rat" where
  "float_floordiv vx wx =
     (let fm = c_fmod vx wx;
          dv = round_double (round_double (vx - fm) / wx);
          dv = (if fm \<noteq> 0 \<and> ((wx < 0) \<noteq> (fm < 0)) then round_double (dv - 1) else dv)
      in if dv \<noteq> 0
         then (let floordiv = rat_of_int \<lfloor>dv\<rfloor>
               in if 1 / 2 < round_double (dv - floordiv)
                  then round_double (floordiv + 1) else floordiv)
         else 0)"

definition float_rem :: "rat \<Rightarrow> rat \<Rightarrow> rat" where
  "float_rem vx wx =
     (let fm = c_fmod vx wx
      in if fm \<noteq> 0 \<and> ((wx < 0) \<noteq> (fm < 0)) then round_double (fm + wx) else fm)"

text \<open>
  The layout of the fleet and the scaling of the difficulty are computed with these
  operations. The per-frame sums of a position and a speed are taken exactly.
\<close>

subsection \<open>pygame.Rect\<close>

record Rect =
  rect_x :: int
  rect_y :: int
  rect_w :: int
  rect_h :: int

text \<open>
  An assignment of a float to a coordinate of a rect (\<open>rect.y = self.y\<close>) converts the
  float to an integer inside pygame. The conversion depends on the version of the library:
  older versions truncate, pygame 2.5 and 2.6 take the nearest integer (\<open>25.5\<close> becomes
  \<open>26\<close>, \<open>367.9\<close> becomes \<open>368\<close>). The functions that make such an assignment take the
  conversion as their first argument \<open>to_px\<close>; every version leaves a whole number as it
  is.
\<close>

type_synonym px_conversion = "rat \<Rightarrow> int"

definition rect_top :: "Rect \<Rightarrow> int" where
  "rect_top r = rect_y r"

definition rect_bottom :: "Rect \<Rightarrow> int" where
  "rect_bottom r = rect_y r + rect_h r"

definition rect_left :: "Rect \<Rightarrow> int" where
  "rect_left r = rect_x r"

definition rect_right :: "Rect \<Rightarrow> int" where
  "rect_right r = rect_x r + rect_w r"

definition rect_centery :: "Rect \<Rightarrow> int" where
  "rect_centery r = rect_y r + c_half (rect_h r)"

definition rect_midleft :: "Rect \<Rightarrow> int \<times> int" where
  "rect_midleft r = (rect_x r, rect_centery r)"

text \<open>Assignment \<open>r.midleft = (px, py)\<close>: the size stays, the rect moves.\<close>

definition set_midleft :: "Rect \<Rightarrow> int \<times> int \<Rightarrow> Rect" where
  "set_midleft r p = r\<lparr>rect_x := fst p, rect_y := snd p - c_half (rect_h r)\<rparr>"

text \<open>
  \<open>Rect.colliderect\<close>: a rect of zero width or height collides with nothing; otherwise the
  two rects overlap on both axes (edges that only touch do not overlap).
\<close>

definition colliderect :: "Rect \<Rightarrow> Rect \<Rightarrow> bool" where
  "colliderect a b =
     (if rect_w a = 0 \<or> rect_h a = 0 \<or> rect_w b = 0 \<or> rect_h b = 0 then False
      else min (rect_x a) (rect_x a + rect_w a) < max (rect_x b) (rect_x b + rect_w b)
         \<and> min (rect_y a) (rect_y a + rect_h a) < max (rect_y b) (rect_y b + rect_h b)
         \<and> max (rect_x a) (rect_x a + rect_w a) > min (rect_x b) (rect_x b + rect_w b)
         \<and> max (rect_y a) (rect_y a + rect_h a) > min (rect_y b) (rect_y b + rect_h b))"

text \<open>
  The rect of an image scaled to \<open>(sw, sh)\<close> and rotated by a quarter turn: width and
  height are exchanged, the origin is \<open>(0, 0)\<close>.
\<close>

definition rotated_image_rect :: "int \<Rightarrow> int \<Rightarrow> Rect" where
  "rotated_image_rect sw sh = \<lparr>rect_x = 0, rect_y = 0, rect_w = sh, rect_h = sw\<rparr>"

section \<open>settings.py\<close>

record Settings =
  screen_w :: int
  screen_h :: int
  difficulty_scale :: rat
  ship_w :: int
  ship_h :: int
  alien_w :: int
  alien_h :: int
  fleet_direction :: int
  ship_speed :: rat
  starting_ship_count :: int
  bullet_speed :: rat
  bullet_amount :: int
  bullet_w :: int
  bullet_h :: int
  fleet_speed :: rat
  fleet_drop_speed :: int
  alien_points :: int

definition initialize_dynamic_settings :: "Settings \<Rightarrow> Settings" where
  "initialize_dynamic_settings s =
     s\<lparr>ship_speed := 10, starting_ship_count := 3, bullet_speed := 20, bullet_amount := 50,
       bullet_w := 25, bullet_h := 80, fleet_speed := 5, fleet_drop_speed := 40,
       alien_points := 50\<rparr>"

text \<open>
  \<open>Settings.__init__\<close> sets the static fields only; the dynamic ones do not exist until
  \<open>initialize_dynamic_settings\<close> runs, which \<open>AlienInvasion.__init__\<close> calls at once.
  \<open>Settings_init\<close> is the object after both. The literal \<open>1.1\<close> is the double nearest to
  it, \<open>2476979795053773 / 2 ^ 51\<close>.
\<close>

definition Settings_init :: Settings where
  "Settings_init =
     initialize_dynamic_settings
       \<lparr>screen_w = 1200, screen_h = 800,
        difficulty_scale = 2476979795053773 / 2251799813685248,
        ship_w = 40, ship_h = 60, alien_w = 40, alien_h = 40, fleet_direction = 1,
        ship_speed = 0, starting_ship_count = 0, bullet_speed = 0, bullet_amount = 0,
        bullet_w = 0, bullet_h = 0, fleet_speed = 0, fleet_drop_speed = 0,
        alien_points = 0\<rparr>"

text \<open>
  \<open>increase_difficulty\<close>: three float multiplications (the speeds are whole numbers at
  the start and doubles afterwards). The speeds stay far below the largest double for
  thousands of levels; the overflow to infinity is not modelled.
\<close>

definition increase_difficulty :: "Settings \<Rightarrow> Settings" where
  "increase_difficulty s =
     s\<lparr>ship_speed := round_double (ship_speed s * difficulty_scale s),
       bullet_speed := round_double (bullet_speed s * difficulty_scale s),
       fleet_speed := round_double (fleet_speed s * difficulty_scale s)\<rparr>"

section \<open>alien_fleet.py: the layout\<close>

text \<open>
  \<open>calculate_fleet_size\<close>: \<open>screen_h // alien_h\<close> is integer floor division and raises
  \<open>ZeroDivisionError\<close> on a zero divisor. \<open>screen_w / 2\<close> is a true division of integers,
  a float; \<open>(screen_w / 2) // alien_w\<close> converts \<open>alien_w\<close> to a float and is the floor
  division of floats, which raises \<open>ZeroDivisionError\<close> on a zero divisor. \<open>fleet_w\<close> is a
  float from there on: \<open>fleet_w % 2\<close> and \<open>fleet_w -= 1\<close> are float operations, and
  \<open>int(fleet_w)\<close> converts the result.
\<close>

definition calculate_fleet_size :: "int \<Rightarrow> int \<Rightarrow> int \<Rightarrow> int \<Rightarrow> py_error + int \<times> int" where
  "calculate_fleet_size a_h s_h a_w s_w =
     (if a_h = 0 then Inl ZeroDivisionError
      else
        let fleet_h = s_h div a_h
        in case to_double (rat_of_int s_w / 2) of
             Inl e \<Rightarrow> Inl e
           | Inr half \<Rightarrow>
               (case to_double (rat_of_int a_w) of
                  Inl e \<Rightarrow> Inl e
                | Inr wx \<Rightarrow>
                    if wx = 0 then Inl ZeroDivisionError
                    else
                      let fleet_w = float_floordiv half wx;
                          fleet_h = (if fleet_h mod 2 = 0 then fleet_h - 1 else fleet_h - 2);
                          fleet_w = (if float_rem fleet_w 2 = 0 then round_double (fleet_w - 1)
                                     else round_double (fleet_w - 2))
                      in Inr (fleet_h, py_int fleet_w)))"

definition calculate_offsets :: "int \<Rightarrow> int \<Rightarrow> int \<Rightarrow> int \<Rightarrow> int \<Rightarrow> int \<Rightarrow> int \<times> int" where
  "calculate_offsets a_h fleet_h a_w fleet_w s_h s_w =
     (let half_screen = s_w div 2;
          fleet_vertical_space = fleet_h * a_h;
          fleet_horizontal_space = fleet_w * a_w;
          y_offset = (s_h - fleet_vertical_space) div 2;
          x_offset = half_screen + (half_screen - fleet_horizontal_space) div 2
      in (x_offset, y_offset))"

definition screen_rect :: "Settings \<Rightarrow> Rect" where
  "screen_rect st = \<lparr>rect_x = 0, rect_y = 0, rect_w = screen_w st, rect_h = screen_h st\<rparr>"

section \<open>alien.py\<close>

record Alien =
  alien_rect :: Rect
  alien_x :: rat
  alien_y :: rat

text \<open>
  \<open>Alien.__init__(fleet, x, y)\<close>: the image is scaled to \<open>(alien_h, alien_w)\<close> and rotated
  by a quarter turn; the rect is moved to \<open>(x, y)\<close> and the float position is read back
  from the rect.
\<close>

definition Alien_init :: "Settings \<Rightarrow> int \<Rightarrow> int \<Rightarrow> Alien" where
  "Alien_init st x y =
     (let r = (rotated_image_rect (alien_h st) (alien_w st))\<lparr>rect_x := x, rect_y := y\<rparr>
      in \<lparr>alien_rect = r, alien_x = rat_of_int (rect_x r), alien_y = rat_of_int (rect_y r)\<rparr>)"

text \<open>\<open>Alien.update\<close>; the argument \<open>direction\<close> is \<open>self.fleet.fleet_direction\<close>.\<close>

definition Alien_update :: "px_conversion \<Rightarrow> Settings \<Rightarrow> int \<Rightarrow> Alien \<Rightarrow> Alien" where
  "Alien_update to_px st direction a =
     (let temp_speed = fleet_speed st;
          y = alien_y a + temp_speed * rat_of_int direction
      in a\<lparr>alien_y := y,
           alien_rect := (alien_rect a)\<lparr>rect_y := to_px y, rect_x := to_px (alien_x a)\<rparr>\<rparr>)"

definition check_edges :: "Settings \<Rightarrow> Alien \<Rightarrow> bool" where
  "check_edges st a =
     (rect_bottom (alien_rect a) \<ge> rect_bottom (screen_rect st)
      \<or> rect_top (alien_rect a) \<le> rect_top (screen_rect st))"

section \<open>alien_fleet.py\<close>

text \<open>
  A \<open>pygame.sprite.Group\<close> is the list of its sprites in insertion order; a sprite that
  occurs twice in the list stands for two sprites with equal attributes.
\<close>

record AlienFleet =
  fleet :: "Alien list"
  fleet_direction :: int
  fleet_drop_speed :: int

text \<open>
  \<open>_create_alien(self, current_x, current_y)\<close> builds \<open>Alien(self, current_y, current_x)\<close>;
  its caller passes \<open>(current_y, current_x)\<close>, so the two exchanges cancel.
\<close>

definition create_alien :: "Settings \<Rightarrow> int \<Rightarrow> int \<Rightarrow> AlienFleet \<Rightarrow> AlienFleet" where
  "create_alien st current_x current_y af =
     (let new_alien = Alien_init st current_y current_x
      in af\<lparr>fleet := fleet af @ [new_alien]\<rparr>)"

text \<open>The inner loop \<open>for row in range(fleet_h)\<close> of \<open>_create_rectangle_fleet\<close>.\<close>

primrec create_rows :: "Settings \<Rightarrow> int \<Rightarrow> int \<Rightarrow> int \<Rightarrow> int \<Rightarrow> int \<Rightarrow> int list \<Rightarrow> AlienFleet \<Rightarrow> AlienFleet" where
  "create_rows st a_w a_h x_offset y_offset col [] af = af"
| "create_rows st a_w a_h x_offset y_offset col (row # rows) af =
     (let current_y = a_h * row + y_offset;
          current_x = a_w * col + x_offset
      in if row mod 2 = 0 \<or> col mod 2 = 0
         then create_rows st a_w a_h x_offset y_offset col rows af
         else create_rows st a_w a_h x_offset y_offset col rows
                (create_alien st current_y current_x af))"

text \<open>The outer loop \<open>for col in range(fleet_w)\<close>.\<close>

primrec create_cols :: "Settings \<Rightarrow> int \<Rightarrow> int \<Rightarrow> int \<Rightarrow> int \<Rightarrow> int \<Rightarrow> int list \<Rightarrow> AlienFleet \<Rightarrow> AlienFleet" where
  "create_cols st fleet_h a_w a_h x_offset y_offset [] af = af"
| "create_cols st fleet_h a_w a_h x_offset y_offset (col # cols) af =
     create_cols st fleet_h a_w a_h x_offset y_offset cols
       (create_rows st a_w a_h x_offset y_offset col [0..fleet_h - 1] af)"

definition create_rectangle_fleet ::
    "Settings \<Rightarrow> int \<Rightarrow> int \<Rightarrow> int \<Rightarrow> int \<Rightarrow> int \<Rightarrow> int \<Rightarrow> AlienFleet \<Rightarrow> AlienFleet" where
  "create_rectangle_fleet st fleet_w fleet_h a_w a_h x_offset y_offset af =
     create_cols st fleet_h a_w a_h x_offset y_offset [0..fleet_w - 1] af"

definition create_fleet :: "Settings \<Rightarrow> AlienFleet \<Rightarrow> py_error + AlienFleet" where
  "create_fleet st af =
     (case calculate_fleet_size (alien_h st) (screen_h st) (alien_w st) (screen_w st) of
        Inl e \<Rightarrow> Inl e
      | Inr (fleet_h, fleet_w) \<Rightarrow>
          (case calculate_offsets (alien_h st) fleet_h (alien_w st) fleet_w
                  (screen_h st) (screen_w st) of
             (x_offset, y_offset) \<Rightarrow>
               Inr (create_rectangle_fleet st fleet_w fleet_h (alien_w st) (alien_h st)
                      x_offset y_offset af)))"

definition AlienFleet_init :: "Settings \<Rightarrow> py_error + AlienFleet" where
  "AlienFleet_init st =
     create_fleet st
       \<lparr>fleet = [], fleet_direction = Settings.fleet_direction st,
        fleet_drop_speed = Settings.fleet_drop_speed st\<rparr>"

definition drop_alien_fleet :: "AlienFleet \<Rightarrow> AlienFleet" where
  "drop_alien_fleet af =
     af\<lparr>fleet := map (\<lambda>a. a\<lparr>alien_x := alien_x a - rat_of_int (fleet_drop_speed af)\<rparr>) (fleet af)\<rparr>"

text \<open>
  \<open>_check_fleet_edges\<close>: the loop over the group stops (\<open>break\<close>) at the first alien on an
  edge, after the drop and the change of direction.
\<close>

primrec check_fleet_edges_loop :: "Settings \<Rightarrow> Alien list \<Rightarrow> AlienFleet \<Rightarrow> AlienFleet" where
  "check_fleet_edges_loop st [] af = af"
| "check_fleet_edges_loop st (a # rest) af =
     (if check_edges st a
      then (let af1 = drop_alien_fleet af
            in af1\<lparr>fleet_direction := fleet_direction af1 * (- 1)\<rparr>)
      else check_fleet_edges_loop st rest af)"

definition check_fleet_edges :: "Settings \<Rightarrow> AlienFleet \<Rightarrow> AlienFleet" where
  "check_fleet_edges st af = check_fleet_edges_loop st (fleet af) af"

definition update_fleet :: "px_conversion \<Rightarrow> Settings \<Rightarrow> AlienFleet \<Rightarrow> AlienFleet" where
  "update_fleet to_px st af =
     (let af1 = check_fleet_edges st af
      in af1\<lparr>fleet := map (Alien_update to_px st (fleet_direction af1)) (fleet af1)\<rparr>)"

primrec check_fleet_left_loop :: "Alien list \<Rightarrow> bool" where
  "check_fleet_left_loop [] = False"
| "check_fleet_left_loop (a # rest) =
     (if rect_right (alien_rect a) < 0 then True else check_fleet_left_loop rest)"

definition check_fleet_left :: "AlienFleet \<Rightarrow> bool" where
  "check_fleet_left af = check_fleet_left_loop (fleet af)"

definition check_destroyed_status :: "AlienFleet \<Rightarrow> bool" where
  "check_destroyed_status af = (fleet af = [])"

section \<open>bullet.py, arsenal.py and ship.py\<close>

record Bullet =
  bullet_rect :: Rect
  bullet_x :: rat

record Ship =
  ship_rect :: Rect
  ship_y :: rat
  moving_up :: bool
  moving_down :: bool
  arsenal :: "Bullet list"

text \<open>\<open>Bullet.__init__\<close>; the second argument is \<open>game.ship\<close>.\<close>

definition Bullet_init :: "Settings \<Rightarrow> Ship \<Rightarrow> Bullet" where
  "Bullet_init st sh =
     (let r = set_midleft (rotated_image_rect (bullet_w st) (bullet_h st))
                (rect_midleft (ship_rect sh))
      in \<lparr>bullet_rect = r, bullet_x = rat_of_int (rect_x r)\<rparr>)"

definition Bullet_update :: "px_conversion \<Rightarrow> Settings \<Rightarrow> Bullet \<Rightarrow> Bullet" where
  "Bullet_update to_px st b =
     (let x = bullet_x b + bullet_speed st
      in b\<lparr>bullet_x := x, bullet_rect := (bullet_rect b)\<lparr>rect_x := to_px x\<rparr>\<rparr>)"

definition remove_bullets_offscreen :: "Settings \<Rightarrow> Bullet list \<Rightarrow> Bullet list" where
  "remove_bullets_offscreen st bs =
     filter (\<lambda>b. \<not> rect_right (bullet_rect b) \<ge> screen_w st + 80) bs"

definition update_arsenal :: "px_conversion \<Rightarrow> Settings \<Rightarrow> Bullet list \<Rightarrow> Bullet list" where
  "update_arsenal to_px st bs = remove_bullets_offscreen st (map (Bullet_update to_px st) bs)"

text \<open>
  \<open>Arsenal.fire_bullet\<close>. The arsenal is the ship's, and the new bullet reads the ship's
  rect, so the operation is on the ship; the boolean is the value returned.
\<close>

definition fire_bullet :: "Settings \<Rightarrow> Ship \<Rightarrow> Ship \<times> bool" where
  "fire_bullet st sh =
     (if int (length (arsenal sh)) < bullet_amount st
      then (let new_bullet = Bullet_init st sh
            in (sh\<lparr>arsenal := arsenal sh @ [new_bullet]\<rparr>, True))
      else (sh, False))"

definition center_ship :: "Settings \<Rightarrow> Ship \<Rightarrow> Ship" where
  "center_ship st sh =
     (let r = set_midleft (ship_rect sh) (rect_midleft (screen_rect st))
      in sh\<lparr>ship_rect := r, ship_y := rat_of_int (rect_y r)\<rparr>)"

definition Ship_init :: "Settings \<Rightarrow> Ship" where
  "Ship_init st =
     center_ship st
       \<lparr>ship_rect = rotated_image_rect (ship_w st) (ship_h st), ship_y = 0,
        moving_up = False, moving_down = False, arsenal = []\<rparr>"

definition update_ship_movement :: "px_conversion \<Rightarrow> Settings \<Rightarrow> Ship \<Rightarrow> Ship" where
  "update_ship_movement to_px st sh =
     (let temp_speed = ship_speed st;
          y1 = (if moving_up sh \<and> rect_top (ship_rect sh) > rect_top (screen_rect st)
                then ship_y sh - temp_speed else ship_y sh);
          y2 = (if moving_down sh \<and> rect_bottom (ship_rect sh) < rect_bottom (screen_rect st)
                then y1 + temp_speed else y1)
      in sh\<lparr>ship_y := y2, ship_rect := (ship_rect sh)\<lparr>rect_y := to_px y2\<rparr>\<rparr>)"

definition Ship_update :: "px_conversion \<Rightarrow> Settings \<Rightarrow> Ship \<Rightarrow> Ship" where
  "Ship_update to_px st sh =
     (let sh1 = update_ship_movement to_px st sh
      in sh1\<lparr>arsenal := update_arsenal to_px st (arsenal sh1)\<rparr>)"

definition Ship_fire :: "Settings \<Rightarrow> Ship \<Rightarrow> Ship \<times> bool" where
  "Ship_fire st sh = fire_bullet st sh"

text \<open>\<open>Ship.check_collisions\<close>: \<open>spritecollideany\<close> finds whether some alien overlaps.\<close>

definition Ship_check_collisions :: "Settings \<Rightarrow> Ship \<Rightarrow> Alien list \<Rightarrow> Ship \<times> bool" where
  "Ship_check_collisions st sh other_group =
     (if list_ex (\<lambda>a. colliderect (ship_rect sh) (alien_rect a)) other_group
      then (center_ship st sh, True)
      else (sh, False))"

section \<open>pygame.sprite.groupcollide\<close>

text \<open>
  \<open>spritecollide(sprite, group, dokill=True)\<close> walks the group, kills every member whose
  rect overlaps the sprite's and collects it. The result is the list collected and the
  group that is left.
\<close>

primrec spritecollide :: "Alien \<Rightarrow> Bullet list \<Rightarrow> Bullet list \<times> Bullet list" where
  "spritecollide a [] = ([], [])"
| "spritecollide a (b # bs) =
     (case spritecollide a bs of
        (crashed, left) \<Rightarrow>
          if colliderect (alien_rect a) (bullet_rect b) then (b # crashed, left)
          else (crashed, b # left))"

text \<open>
  \<open>groupcollide(groupa, groupb, True, True)\<close> walks \<open>groupa\<close> in order; each member is
  tested against what is left of \<open>groupb\<close>, and is killed and entered in the dictionary
  when its list is not empty. The result is the dictionary (one entry per killed member of
  \<open>groupa\<close>, in order) and what is left of the two groups.
\<close>

primrec groupcollide ::
    "Alien list \<Rightarrow> Bullet list \<Rightarrow> (Alien \<times> Bullet list) list \<times> Alien list \<times> Bullet list" where
  "groupcollide [] groupb = ([], [], groupb)"
| "groupcollide (a # groupa) groupb =
     (case spritecollide a groupb of
        (collision, left) \<Rightarrow>
          (case groupcollide groupa left of
             (crashed, alive, left') \<Rightarrow>
               if collision \<noteq> [] then ((a, collision) # crashed, alive, left')
               else (crashed, a # alive, left')))"

text \<open>
  \<open>AlienFleet.check_collisions\<close>: the dictionary returned, the fleet and the other group
  after the call.
\<close>

definition AlienFleet_check_collisions ::
    "AlienFleet \<Rightarrow> Bullet list \<Rightarrow> (Alien \<times> Bullet list) list \<times> AlienFleet \<times> Bullet list" where
  "AlienFleet_check_collisions af other_group =
     (case groupcollide (fleet af) other_group of
        (collisions, alive, left) \<Rightarrow> (collisions, af\<lparr>fleet := alive\<rparr>, left))"


section \<open>game_stats.py\<close>

record GameStats =
  max_score :: int
  hi_score :: int
  ships_left :: int
  score :: int
  level :: int

text \<open>
  What a scores file holds, as the game sees it: a file that cannot be read, text that
  \<open>json.loads\<close> rejects, a JSON value that is not an object (it has no \<open>get\<close>), or a
  JSON object, given by its keys and values.
\<close>

datatype file_content =
    Unreadable py_error
  | Malformed
  | NotAnObject
  | Record "(string \<times> int) list"

text \<open>The scores path: no file, or a file of some size in bytes with its content.\<close>

datatype scores_file =
    Missing
  | File nat file_content

text \<open>
  The file system: the scores file, the exception \<open>write_text\<close> raises on this path
  (if any), and what has been printed.
\<close>

record Disk =
  scores_path :: scores_file
  write_raises :: "py_error option"
  printed :: "string list"

text \<open>
  \<open>self.path.stat.__sizeof__()\<close> is the size in bytes of the bound-method object
  \<open>path.stat\<close> (the method is not called): 48 on a 64-bit CPython, and the same for every
  path. The size of the file is not read.
\<close>

definition stat_method_sizeof :: nat where
  "stat_method_sizeof = 48"

text \<open>
  The length of \<open>json.dumps({'hi_score': h}, indent=4)\<close>: 20 characters around the
  decimal representation of \<open>h\<close>.
\<close>

fun decimal_digits :: "nat \<Rightarrow> nat" where
  "decimal_digits n = (if n < 10 then 1 else Suc (decimal_digits (n div 10)))"

definition dumps_size :: "int \<Rightarrow> nat" where
  "dumps_size h =
     20 + (if h < 0 then Suc (decimal_digits (nat (- h))) else decimal_digits (nat h))"

text \<open>\<open>save_scores\<close>: only \<open>FileNotFoundError\<close> is caught.\<close>

definition save_scores :: "Disk \<Rightarrow> GameStats \<Rightarrow> py_error + Disk" where
  "save_scores d gs =
     (let scores = [(''hi_score'', hi_score gs)]
      in case write_raises d of
           None \<Rightarrow> Inr (d\<lparr>scores_path := File (dumps_size (hi_score gs)) (Record scores)\<rparr>)
         | Some e \<Rightarrow>
             if e = FileNotFoundError then Inr (d\<lparr>printed := printed d @ [''File not found'']\<rparr>)
             else Inl e)"

definition init_saved_scores :: "Disk \<Rightarrow> GameStats \<Rightarrow> py_error + Disk \<times> GameStats" where
  "init_saved_scores d gs =
     (if scores_path d \<noteq> Missing \<and> stat_method_sizeof > 20
      then (case scores_path d of
              Missing \<Rightarrow> Inl FileNotFoundError
            | File n content \<Rightarrow>
                (case content of
                   Unreadable e \<Rightarrow> Inl e
                 | Malformed \<Rightarrow> Inl JSONDecodeError
                 | NotAnObject \<Rightarrow> Inl AttributeError
                 | Record scores \<Rightarrow>
                     Inr (d, gs\<lparr>hi_score := (case map_of scores ''hi_score'' of
                                                Some v \<Rightarrow> v | None \<Rightarrow> 0)\<rparr>)))
      else (let gs1 = gs\<lparr>hi_score := 0\<rparr>
            in case save_scores d gs1 of
                 Inl e \<Rightarrow> Inl e
               | Inr d1 \<Rightarrow> Inr (d1, gs1)))"

definition reset_stats :: "Settings \<Rightarrow> GameStats \<Rightarrow> GameStats" where
  "reset_stats st gs = gs\<lparr>ships_left := starting_ship_count st, score := 0, level := 1\<rparr>"

text \<open>
  \<open>GameStats.__init__\<close>: \<open>max_score = 0\<close>, then \<open>init_saved_scores\<close>, then
  \<open>reset_stats\<close>. The fields not yet assigned are written as 0.
\<close>

definition GameStats_init :: "Settings \<Rightarrow> Disk \<Rightarrow> py_error + Disk \<times> GameStats" where
  "GameStats_init st d =
     (case init_saved_scores d
             \<lparr>max_score = 0, hi_score = 0, ships_left = 0, score = 0, level = 0\<rparr> of
        Inl e \<Rightarrow> Inl e
      | Inr (d1, gs) \<Rightarrow> Inr (d1, reset_stats st gs))"

text \<open>
  \<open>_update_score\<close>: one addition per value of the dictionary, that is per key, that is
  per alien killed.
\<close>

primrec update_score_loop :: "Settings \<Rightarrow> Bullet list list \<Rightarrow> GameStats \<Rightarrow> GameStats" where
  "update_score_loop st [] gs = gs"
| "update_score_loop st (v # vs) gs =
     update_score_loop st vs (gs\<lparr>score := score gs + alien_points st\<rparr>)"

definition update_score :: "Settings \<Rightarrow> (Alien \<times> Bullet list) list \<Rightarrow> GameStats \<Rightarrow> GameStats" where
  "update_score st collisions gs = update_score_loop st (map snd collisions) gs"

definition update_max_score :: "GameStats \<Rightarrow> GameStats" where
  "update_max_score gs = (if score gs > max_score gs then gs\<lparr>max_score := score gs\<rparr> else gs)"

definition update_hi_score :: "GameStats \<Rightarrow> GameStats" where
  "update_hi_score gs = (if score gs > hi_score gs then gs\<lparr>hi_score := score gs\<rparr> else gs)"

definition GameStats_update :: "Settings \<Rightarrow> (Alien \<times> Bullet list) list \<Rightarrow> GameStats \<Rightarrow> GameStats" where
  "GameStats_update st collisions gs =
     update_hi_score (update_max_score (update_score st collisions gs))"

definition update_level :: "GameStats \<Rightarrow> GameStats" where
  "update_level gs = gs\<lparr>level := level gs + 1\<rparr>"

section \<open>Lab14_corta1.py: the game\<close>

record AlienInvasion =
  settings :: Settings
  game_stats :: GameStats
  ship :: Ship
  alien_fleet :: AlienFleet
  game_active :: bool

definition reset_level :: "AlienInvasion \<Rightarrow> py_error + AlienInvasion" where
  "reset_level g =
     (let g1 = g\<lparr>ship := (ship g)\<lparr>arsenal := []\<rparr>\<rparr>;
          g2 = g1\<lparr>alien_fleet := (alien_fleet g1)\<lparr>fleet := []\<rparr>\<rparr>
      in case create_fleet (settings g2) (alien_fleet g2) of
           Inl e \<Rightarrow> Inl e
         | Inr af \<Rightarrow> Inr (g2\<lparr>alien_fleet := af\<rparr>))"

text \<open>\<open>_check_game_status\<close>; the pause \<open>sleep(0.5)\<close> changes no state.\<close>

definition check_game_status :: "AlienInvasion \<Rightarrow> py_error + AlienInvasion" where
  "check_game_status g =
     (if ships_left (game_stats g) > 0
      then reset_level (g\<lparr>game_stats := (game_stats g)\<lparr>ships_left := ships_left (game_stats g) - 1\<rparr>\<rparr>)
      else Inr (g\<lparr>game_active := False\<rparr>))"

definition restart_game :: "AlienInvasion \<Rightarrow> py_error + AlienInvasion" where
  "restart_game g =
     (let g1 = g\<lparr>settings := initialize_dynamic_settings (settings g)\<rparr>;
          g2 = g1\<lparr>game_stats := reset_stats (settings g1) (game_stats g1)\<rparr>
      in case reset_level g2 of
           Inl e \<Rightarrow> Inl e
         | Inr g3 \<Rightarrow> Inr (g3\<lparr>ship := center_ship (settings g3) (ship g3), game_active := True\<rparr>))"

text \<open>
  \<open>AlienInvasion.__init__\<close>: the fleet's constructor lays the fleet out, and
  \<open>create_fleet\<close> is called once more on the same group.
\<close>

definition AlienInvasion_init :: "Disk \<Rightarrow> py_error + Disk \<times> AlienInvasion" where
  "AlienInvasion_init d =
     (let st = Settings_init
      in case GameStats_init st d of
           Inl e \<Rightarrow> Inl e
         | Inr (d1, gs) \<Rightarrow>
             (case AlienFleet_init st of
                Inl e \<Rightarrow> Inl e
              | Inr af \<Rightarrow>
                  (case create_fleet st af of
                     Inl e \<Rightarrow> Inl e
                   | Inr af1 \<Rightarrow>
                       Inr (d1, \<lparr>settings = st, game_stats = gs, ship = Ship_init st,
                                 alien_fleet = af1, game_active = False\<rparr>))))"

text \<open>
  A life-loss event is a call of \<open>_check_game_status\<close>, which \<open>_check_collisions\<close> makes
  when the ship overlaps an alien and when an alien has left the screen on the left.
\<close>

definition check_collisions :: "AlienInvasion \<Rightarrow> py_error + AlienInvasion" where
  "check_collisions g =
     (case (case Ship_check_collisions (settings g) (ship g) (fleet (alien_fleet g)) of
              (sh, hit) \<Rightarrow> if hit then check_game_status (g\<lparr>ship := sh\<rparr>) else Inr g) of
        Inl e \<Rightarrow> Inl e
      | Inr g1 \<Rightarrow>
          (case (if check_fleet_left (alien_fleet g1) then check_game_status g1 else Inr g1) of
             Inl e \<Rightarrow> Inl e
           | Inr g2 \<Rightarrow>
               (case AlienFleet_check_collisions (alien_fleet g2) (arsenal (ship g2)) of
                  (collisions, af, left) \<Rightarrow>
                    (let g3 = g2\<lparr>alien_fleet := af, ship := (ship g2)\<lparr>arsenal := left\<rparr>\<rparr>;
                         g4 = (if collisions \<noteq> []
                               then g3\<lparr>game_stats :=
                                      GameStats_update (settings g3) collisions (game_stats g3)\<rparr>
                               else g3)
                     in if check_destroyed_status (alien_fleet g4)
                        then (case reset_level g4 of
                                Inl e \<Rightarrow> Inl e
                              | Inr g5 \<Rightarrow>
                                  Inr (g5\<lparr>settings := increase_difficulty (settings g5),
                                         game_stats := update_level (game_stats g5)\<rparr>))
                        else Inr g4))))"

text \<open>One frame of \<open>run_game\<close> while the game is active (events and drawing apart).\<close>

definition frame :: "px_conversion \<Rightarrow> AlienInvasion \<Rightarrow> py_error + AlienInvasion" where
  "frame to_px g =
     (if game_active g
      then check_collisions
             (g\<lparr>ship := Ship_update to_px (settings g) (ship g),
                alien_fleet := update_fleet to_px (settings g) (alien_fleet g)\<rparr>)
      else Inr g)"


section \<open>Notions used in the statements\<close>

text \<open>An alien whose rect has its corner at \<open>(px, py)\<close>.\<close>

definition at_cell :: "int \<Rightarrow> int \<Rightarrow> Alien \<Rightarrow> bool" where
  "at_cell px py a = (rect_x (alien_rect a) = px \<and> rect_y (alien_rect a) = py)"

text \<open>The aliens the inner loop adds for one column, in order.\<close>

definition cell_aliens :: "Settings \<Rightarrow> int \<Rightarrow> int \<Rightarrow> int \<Rightarrow> int \<Rightarrow> int list \<Rightarrow> int \<Rightarrow> Alien list" where
  "cell_aliens st a_w a_h xo yo rows col =
     map (\<lambda>row. Alien_init st (a_w * col + xo) (a_h * row + yo))
       (filter (\<lambda>row. odd row \<and> odd col) rows)"

text \<open>
  \<open>n\<close> calls of \<open>fire_bullet\<close> in a row, with nothing removed in between: the ship after
  the last call and the values returned, in order.
\<close>

primrec fire_times :: "Settings \<Rightarrow> nat \<Rightarrow> Ship \<Rightarrow> Ship \<times> bool list" where
  "fire_times st 0 sh = (sh, [])"
| "fire_times st (Suc n) sh =
     (case fire_bullet st sh of
        (sh1, ok) \<Rightarrow> (case fire_times st n sh1 of (sh2, oks) \<Rightarrow> (sh2, ok # oks)))"







text \<open>
  The screen width and the unit width are integers that a double holds exactly, together
  with their halves: the float arithmetic of the layout is then exact and cannot overflow.
\<close>

definition layout_in_range :: "Settings \<Rightarrow> bool" where
  "layout_in_range st = (\<bar>screen_w st\<bar> < 2 ^ 53 \<and> \<bar>alien_w st\<bar> < 2 ^ 53)"

text \<open>\<open>n\<close> life-loss events in a row: \<open>n\<close> calls of \<open>_check_game_status\<close>.\<close>

primrec life_losses :: "nat \<Rightarrow> AlienInvasion \<Rightarrow> py_error + AlienInvasion" where
  "life_losses 0 g = Inr g"
| "life_losses (Suc n) g =
     (case check_game_status g of Inl e \<Rightarrow> Inl e | Inr g1 \<Rightarrow> life_losses n g1)"

text \<open>
  The start of a session: the game is constructed (no scores file yet, the disk writable)
  and the Play button is clicked, which calls \<open>restart_game\<close>.
\<close>

definition new_session :: "py_error + AlienInvasion" where
  "new_session =
     (case AlienInvasion_init \<lparr>scores_path = Missing, write_raises = None, printed = []\<rparr> of
        Inl e \<Rightarrow> Inl e
      | Inr (d, g) \<Rightarrow> restart_game g)"

text \<open>The lives left and the game-active flag after \<open>n\<close> life-loss events in a new session.\<close>

definition lives_after :: "nat \<Rightarrow> py_error + int \<times> bool" where
  "lives_after n =
     (case new_session of
        Inl e \<Rightarrow> Inl e
      | Inr g \<Rightarrow>
          (case life_losses n g of
             Inl e \<Rightarrow> Inl e
           | Inr g1 \<Rightarrow> Inr (ships_left (game_stats g1), game_active g1)))"


text \<open>The bounding boxes of an alien and of a bullet overlap.\<close>

definition hits :: "Alien \<Rightarrow> Bullet \<Rightarrow> bool" where
  "hits a b = colliderect (alien_rect a) (bullet_rect b)"

text \<open>The bullets that none of the given aliens overlaps.\<close>

definition untouched :: "Alien list \<Rightarrow> Bullet list \<Rightarrow> Bullet list" where
  "untouched as bs = filter (\<lambda>b. \<not> list_ex (\<lambda>a. hits a b) as) bs"

text \<open>The quit event: the scores are saved, then the process exits.\<close>

definition quit_game :: "Disk \<Rightarrow> AlienInvasion \<Rightarrow> py_error + Disk" where
  "quit_game d g = save_scores d (game_stats g)"

text \<open>
  The ship over some frames: before each \<open>Ship.update\<close> the key events set the two
  movement flags to the given values.
\<close>

primrec hold_keys :: "px_conversion \<Rightarrow> Settings \<Rightarrow> (bool \<times> bool) list \<Rightarrow> Ship \<Rightarrow> Ship" where
  "hold_keys to_px st [] sh = sh"
| "hold_keys to_px st (k # ks) sh =
     hold_keys to_px st ks (Ship_update to_px st (sh\<lparr>moving_up := fst k, moving_down := snd k\<rparr>))"

text \<open>The ship's rect is on a multiple of 10 between the top and the bottom of an 800 screen.\<close>

definition on_grid :: "Ship \<Rightarrow> bool" where
  "on_grid sh =
     (ship_y sh = rat_of_int (rect_y (ship_rect sh)) \<and> rect_h (ship_rect sh) = 40
      \<and> 10 dvd rect_y (ship_rect sh) \<and> 0 \<le> rect_y (ship_rect sh)
      \<and> rect_y (ship_rect sh) \<le> 760)"

text \<open>
  The ship's position is less than one step of the ship's speed outside the screen, and
  the rect follows the position.
\<close>

definition near_screen :: "px_conversion \<Rightarrow> Settings \<Rightarrow> Ship \<Rightarrow> bool" where
  "near_screen to_px st sh =
     (rect_y (ship_rect sh) = to_px (ship_y sh)
      \<and> rect_h (ship_rect sh) \<le> screen_h st
      \<and> - ship_speed st < ship_y sh
      \<and> ship_y sh < rat_of_int (screen_h st - rect_h (ship_rect sh)) + ship_speed st)"

section \<open>Lemmas on doubles\<close>

lemma pow2_pos: "0 < pow2 e"
  by (simp add: pow2_def)

lemma pow2_add: "pow2 (a + b) = pow2 a * pow2 b"
  by (simp add: pow2_def power_int_add)

lemma pow2_nat: "0 \<le> e \<Longrightarrow> pow2 e = 2 ^ nat e"
  by (simp add: pow2_def power_int_def)

lemma double_exp_eq:
  assumes lo: "pow2 (52 + e) \<le> \<bar>q\<bar>" and hi: "\<bar>q\<bar> < pow2 (53 + e)" and e: "- 1074 \<le> e"
  shows "double_exp q = e"
proof -
  define n where "n = nat (e + 1126)"
  define N where "N = \<lfloor>\<bar>q\<bar> * 2 ^ 1074\<rfloor>"
  have p1: "pow2 (52 + e) * 2 ^ 1074 = 2 ^ n"
  proof -
    have "pow2 (52 + e) * 2 ^ 1074 = pow2 (52 + e) * pow2 1074" by (simp add: pow2_def)
    also have "\<dots> = pow2 (e + 1126)" by (simp add: pow2_add [symmetric] algebra_simps)
    also have "\<dots> = 2 ^ n" using e by (simp add: pow2_nat n_def)
    finally show ?thesis .
  qed
  have p2: "pow2 (53 + e) * 2 ^ 1074 = 2 ^ (n + 1)"
  proof -
    have "pow2 (53 + e) * 2 ^ 1074 = pow2 (53 + e) * pow2 1074" by (simp add: pow2_def)
    also have "\<dots> = pow2 (e + 1127)" by (simp add: pow2_add [symmetric] algebra_simps)
    also have "\<dots> = 2 ^ nat (e + 1127)" using e by (simp add: pow2_nat)
    also have "nat (e + 1127) = n + 1" using e by (simp add: n_def)
    finally show ?thesis .
  qed
  have "rat_of_int (2 ^ n) \<le> \<bar>q\<bar> * 2 ^ 1074"
    using mult_right_mono [OF lo, of "2 ^ 1074"] p1 by simp
  then have N_lo: "2 ^ n \<le> N" unfolding N_def by (simp only: le_floor_iff)
  have "\<bar>q\<bar> * 2 ^ 1074 < rat_of_int (2 ^ (n + 1))"
    using mult_strict_right_mono [OF hi, of "2 ^ 1074"] p2 by simp
  then have N_hi: "N < 2 ^ (n + 1)" unfolding N_def by (simp only: floor_less_iff)
  have nn: "nat (int (n + 1)) = n + 1" "nat (int (n + 1)) - 1 = n" by simp_all
  have "bitlen N \<le> int (n + 1)"
    unfolding bitlen_le_iff_power nn using N_hi by simp
  moreover have "int (n + 1) \<le> bitlen N"
    unfolding bitlen_ge_iff_power nn using N_lo by simp
  ultimately have "bitlen N = int n + 1" by simp
  then have "bitlen N - 1127 = e" using e by (simp add: n_def)
  then show ?thesis unfolding double_exp_def N_def [symmetric] using e by simp
qed

lemma round_half_even_of_int: "round_half_even (rat_of_int k) = k"
  by (simp add: round_half_even_def)


lemma double_exp_le:
  assumes q: "q = rat_of_int m * pow2 k" and m: "\<bar>m\<bar> < 2 ^ 53" and k: "- 1074 \<le> k"
  shows "double_exp q \<le> k"
proof -
  define N where "N = \<lfloor>\<bar>q\<bar> * 2 ^ 1074\<rfloor>"
  have "\<bar>q\<bar> * 2 ^ 1074 = rat_of_int \<bar>m\<bar> * (pow2 k * pow2 1074)"
    unfolding q by (simp add: abs_mult pow2_def)
  also have "pow2 k * pow2 1074 = pow2 (k + 1074)" by (simp add: pow2_add)
  also have "\<dots> = 2 ^ nat (k + 1074)" using k by (simp add: pow2_nat)
  finally have "\<bar>q\<bar> * 2 ^ 1074 = rat_of_int (\<bar>m\<bar> * 2 ^ nat (k + 1074))" by simp
  then have N: "N = \<bar>m\<bar> * 2 ^ nat (k + 1074)" unfolding N_def by (simp only: floor_of_int)
  have "\<bar>m\<bar> * 2 ^ nat (k + 1074) < 2 ^ 53 * 2 ^ nat (k + 1074)"
    using m by (intro mult_strict_right_mono) simp_all
  also have "\<dots> = 2 ^ (53 + nat (k + 1074))" by (simp only: power_add)
  also have "53 + nat (k + 1074) = nat (k + 1127)" using k by simp
  finally have "N < 2 ^ nat (k + 1127)" unfolding N .
  then have "bitlen N \<le> k + 1127" unfolding bitlen_le_iff_power using k by simp
  then show ?thesis unfolding double_exp_def N_def [symmetric] using k by simp
qed

lemma round_double_exact:
  assumes q: "q = rat_of_int m * pow2 k" and m: "\<bar>m\<bar> < 2 ^ 53" and k: "- 1074 \<le> k"
  shows "round_double q = q"
proof -
  define e where "e = double_exp q"
  have e: "e \<le> k" unfolding e_def using q m k by (rule double_exp_le)
  have "pow2 k = pow2 ((k - e) + e)" by simp
  also have "\<dots> = pow2 (k - e) * pow2 e" by (rule pow2_add)
  also have "pow2 (k - e) = 2 ^ nat (k - e)" using e by (simp add: pow2_nat)
  finally have pk: "pow2 k = 2 ^ nat (k - e) * pow2 e" .
  have ne: "pow2 e \<noteq> 0" using pow2_pos [of e] by simp
  have "q / pow2 e = rat_of_int (m * 2 ^ nat (k - e))"
    unfolding q pk using ne by simp
  then have "round_half_even (q / pow2 e) = m * 2 ^ nat (k - e)"
    by (simp only: round_half_even_of_int)
  then have "round_double q = rat_of_int (m * 2 ^ nat (k - e)) * pow2 e"
    unfolding round_double_def e_def [symmetric] by simp
  also have "\<dots> = q" unfolding q pk by simp
  finally show ?thesis .
qed

lemma round_double_int: "\<bar>m\<bar> < 2 ^ 53 \<Longrightarrow> round_double (rat_of_int m) = rat_of_int m"
  using round_double_exact [of "rat_of_int m" m 0] by (simp add: pow2_def)

lemma round_double_half:
  "\<bar>m\<bar> < 2 ^ 53 \<Longrightarrow> round_double (rat_of_int m / 2) = rat_of_int m / 2"
  using round_double_exact [of "rat_of_int m / 2" m "- 1"] by (simp add: pow2_def)

lemma round_double_eval:
  assumes "pow2 (52 + e) \<le> \<bar>q\<bar>" "\<bar>q\<bar> < pow2 (53 + e)" "- 1074 \<le> e"
  shows "round_double q = rat_of_int (round_half_even (q / pow2 e)) * pow2 e"
  unfolding round_double_def double_exp_eq [OF assms] ..


lemma py_int_of_int: "py_int (rat_of_int k) = k"
  by (simp add: py_int_def)

lemma py_int_abs_le: "\<bar>rat_of_int (py_int x)\<bar> \<le> \<bar>x\<bar>"
proof (cases "0 \<le> x")
  case True
  then have "0 \<le> \<lfloor>x\<rfloor>" by simp
  with True show ?thesis by (simp add: py_int_def)
next
  case False
  then have "\<lceil>x\<rceil> \<le> 0" by (simp add: ceiling_le_iff)
  then have "\<bar>rat_of_int \<lceil>x\<rceil>\<bar> = - rat_of_int \<lceil>x\<rceil>" by simp
  also have "\<dots> \<le> - x" by simp
  finally show ?thesis using False by (simp add: py_int_def)
qed

lemma floor_py_int: "\<lfloor>x\<rfloor> = (if x < rat_of_int (py_int x) then py_int x - 1 else py_int x)"
proof (cases "0 \<le> x")
  case True
  then show ?thesis by (simp add: py_int_def not_less)
next
  case False
  show ?thesis
  proof (cases "x < rat_of_int \<lceil>x\<rceil>")
    case True
    have "\<lfloor>x\<rfloor> = \<lceil>x\<rceil> - 1"
    proof (rule floor_unique)
      show "rat_of_int (\<lceil>x\<rceil> - 1) \<le> x" using ceiling_correct [of x] by simp
      show "x < rat_of_int (\<lceil>x\<rceil> - 1) + 1" using True by simp
    qed
    with True False show ?thesis by (simp add: py_int_def)
  next
    case no: False
    then have "x = rat_of_int \<lceil>x\<rceil>" using le_of_int_ceiling [of x] by simp
    then have "\<lfloor>x\<rfloor> = \<lceil>x\<rceil>" by (metis floor_of_int)
    with no False show ?thesis by (simp add: py_int_def)
  qed
qed

lemma round_double_0: "round_double 0 = 0"
  using round_double_int [of 0] by simp

lemma float_floordiv_exact:
  assumes s: "\<bar>s\<bar> < 2 ^ 53" and a: "\<bar>a\<bar> < 2 ^ 53" and a0: "a \<noteq> 0"
  shows "float_floordiv (rat_of_int s / 2) (rat_of_int a)
           = rat_of_int \<lfloor>(rat_of_int s / 2) / rat_of_int a\<rfloor>"
proof -
  define vx where "vx = rat_of_int s / 2"
  define wx where "wx = rat_of_int a"
  define x where "x = vx / wx"
  define t where "t = py_int x"
  define fm where "fm = c_fmod vx wx"
  have wx0: "wx \<noteq> 0" using a0 by (simp add: wx_def)
  have fm: "fm = vx - rat_of_int t * wx" by (simp add: fm_def c_fmod_def t_def x_def)
  have vx: "vx = x * wx" using wx0 by (simp add: x_def)
  have fm2: "fm = (x - rat_of_int t) * wx" unfolding fm vx by (simp add: algebra_simps)
  have wx1: "1 \<le> \<bar>wx\<bar>"
  proof -
    from a0 have "1 \<le> \<bar>a\<bar>" by simp
    then have "rat_of_int 1 \<le> rat_of_int \<bar>a\<bar>" by (simp only: of_int_le_iff)
    then show ?thesis by (simp add: wx_def)
  qed
  have vxb: "\<bar>vx\<bar> < 2 ^ 52"
  proof -
    from s have "rat_of_int \<bar>s\<bar> < rat_of_int (2 ^ 53)" by (simp only: of_int_less_iff)
    then show ?thesis by (simp add: vx_def)
  qed
  have "\<bar>x\<bar> * 1 \<le> \<bar>x\<bar> * \<bar>wx\<bar>" using wx1 by (intro mult_left_mono) simp_all
  then have xvx: "\<bar>x\<bar> \<le> \<bar>vx\<bar>" unfolding vx by (simp add: abs_mult)
  have "\<bar>rat_of_int t\<bar> \<le> \<bar>x\<bar>" unfolding t_def by (rule py_int_abs_le)
  with xvx vxb have tb: "\<bar>rat_of_int t\<bar> < 2 ^ 52" by simp
  then have "rat_of_int \<bar>t\<bar> < rat_of_int (2 ^ 52)" by simp
  then have tbi: "\<bar>t\<bar> < 2 ^ 52" by (simp only: of_int_less_iff)
  have "\<bar>rat_of_int (t * a)\<bar> = \<bar>rat_of_int t\<bar> * \<bar>wx\<bar>" by (simp add: wx_def abs_mult)
  also have "\<dots> \<le> \<bar>x\<bar> * \<bar>wx\<bar>"
    using \<open>\<bar>rat_of_int t\<bar> \<le> \<bar>x\<bar>\<close> by (intro mult_right_mono) simp_all
  also have "\<dots> = \<bar>vx\<bar>" unfolding vx by (simp add: abs_mult)
  finally have "\<bar>rat_of_int (t * a)\<bar> < 2 ^ 52" using vxb by simp
  then have "rat_of_int \<bar>t * a\<bar> < rat_of_int (2 ^ 52)" by simp
  then have tab: "\<bar>t * a\<bar> < 2 ^ 53" by (simp only: of_int_less_iff) simp
  have r1: "round_double (vx - fm) = rat_of_int t * wx"
  proof -
    have "vx - fm = rat_of_int (t * a)" unfolding fm by (simp add: wx_def)
    then show ?thesis using round_double_int [OF tab] by (simp add: wx_def)
  qed
  have r2: "round_double (round_double (vx - fm) / wx) = rat_of_int t"
    unfolding r1 using wx0 round_double_int [of t] tbi by simp
  have r3: "round_double (rat_of_int t - 1) = rat_of_int (t - 1)"
    using round_double_int [of "t - 1"] tbi by simp
  have cond: "(fm \<noteq> 0 \<and> ((wx < 0) \<noteq> (fm < 0))) = (x < rat_of_int t)"
    unfolding fm2 using wx0 by (auto simp: mult_less_0_iff not_less)
  define dv where "dv = (if fm \<noteq> 0 \<and> ((wx < 0) \<noteq> (fm < 0))
      then round_double (round_double (round_double (vx - fm) / wx) - 1)
      else round_double (round_double (vx - fm) / wx))"
  have dv: "dv = rat_of_int \<lfloor>x\<rfloor>"
    unfolding dv_def r2 r3 cond floor_py_int [of x] t_def [symmetric] by simp
  have "float_floordiv vx wx =
      (if dv \<noteq> 0
       then (if 1 / 2 < round_double (dv - rat_of_int \<lfloor>dv\<rfloor>)
             then round_double (rat_of_int \<lfloor>dv\<rfloor> + 1) else rat_of_int \<lfloor>dv\<rfloor>)
       else 0)"
    unfolding float_floordiv_def Let_def dv_def fm_def ..
  also have "\<dots> = rat_of_int \<lfloor>x\<rfloor>"
    unfolding dv by (simp add: round_double_0)
  finally show ?thesis unfolding vx_def wx_def x_def .
qed

lemma float_rem_2: "(float_rem (rat_of_int k) 2 = 0) = even k"
proof (cases "0 \<le> k")
  case True
  have "rat_of_int k / 2 = rat_of_int k / rat_of_int 2" by simp
  then have "\<lfloor>rat_of_int k / 2\<rfloor> = k div 2" by (simp only: floor_divide_of_int_eq)
  with True have "py_int (rat_of_int k / 2) = k div 2" by (simp add: py_int_def)
  then have "c_fmod (rat_of_int k) 2 = rat_of_int (k - (k div 2) * 2)" by (simp add: c_fmod_def)
  also have "k - (k div 2) * 2 = k mod 2" by (simp add: minus_div_mult_eq_mod)
  finally have fm: "c_fmod (rat_of_int k) 2 = rat_of_int (k mod 2)" .
  have "0 \<le> k mod 2" by simp
  then have "\<not> rat_of_int (k mod 2) < 0" by (simp only: of_int_less_0_iff not_less)
  then have "float_rem (rat_of_int k) 2 = rat_of_int (k mod 2)"
    by (simp add: float_rem_def fm Let_def)
  then show ?thesis by (simp add: even_iff_mod_2_eq_zero)
next
  case False
  have "rat_of_int k / 2 = rat_of_int k / rat_of_int 2" by simp
  then have "\<lceil>rat_of_int k / 2\<rceil> = - ((- k) div 2)"
    by (simp only: ceiling_divide_eq_div)
  with False have "py_int (rat_of_int k / 2) = - ((- k) div 2)" by (simp add: py_int_def)
  then have "c_fmod (rat_of_int k) 2 = rat_of_int (k + ((- k) div 2) * 2)" by (simp add: c_fmod_def)
  also have "k + ((- k) div 2) * 2 = - ((- k) mod 2)"
    using minus_div_mult_eq_mod [of "- k" 2] by simp
  finally have fm: "c_fmod (rat_of_int k) 2 = rat_of_int (- ((- k) mod 2))" .
  show ?thesis
  proof (cases "even k")
    case True
    then have "(- k) mod 2 = 0" by (simp add: even_iff_mod_2_eq_zero [symmetric])
    with True show ?thesis by (simp add: float_rem_def fm Let_def)
  next
    case odd: False
    then have "(- k) mod 2 = 1" by (simp add: odd_iff_mod_2_eq_one [symmetric])
    then have "c_fmod (rat_of_int k) 2 = - 1" unfolding fm by simp
    moreover have "round_double 1 = 1" using round_double_int [of 1] by simp
    ultimately show ?thesis using odd by (simp add: float_rem_def Let_def)
  qed
qed


lemma to_double_int: "\<bar>m\<bar> < 2 ^ 53 \<Longrightarrow> to_double (rat_of_int m) = Inr (rat_of_int m)"
proof -
  assume m: "\<bar>m\<bar> < 2 ^ 53"
  then have "rat_of_int \<bar>m\<bar> < rat_of_int (2 ^ 53)" by (simp only: of_int_less_iff)
  then have "\<bar>rat_of_int m\<bar> < 2 ^ 53" by simp
  also have "(2 :: rat) ^ 53 < 2 ^ 1024" by simp
  finally have "\<not> 2 ^ 1024 \<le> \<bar>rat_of_int m\<bar>" by simp
  then show ?thesis unfolding to_double_def round_double_int [OF m] by simp
qed

lemma to_double_half:
  "\<bar>m\<bar> < 2 ^ 53 \<Longrightarrow> to_double (rat_of_int m / 2) = Inr (rat_of_int m / 2)"
proof -
  assume m: "\<bar>m\<bar> < 2 ^ 53"
  then have "rat_of_int \<bar>m\<bar> < rat_of_int (2 ^ 53)" by (simp only: of_int_less_iff)
  then have "\<bar>rat_of_int m / 2\<bar> < 2 ^ 53" by simp
  also have "(2 :: rat) ^ 53 < 2 ^ 1024" by simp
  finally have "\<not> 2 ^ 1024 \<le> \<bar>rat_of_int m / 2\<bar>" by simp
  then show ?thesis unfolding to_double_def round_double_half [OF m] by simp
qed

lemma calculate_fleet_size_exact:
  assumes ah: "a_h \<noteq> 0" and aw: "a_w \<noteq> 0"
    and s: "\<bar>s_w\<bar> < 2 ^ 53" and a: "\<bar>a_w\<bar> < 2 ^ 53"
  shows "calculate_fleet_size a_h s_h a_w s_w =
           Inr (if even (s_h div a_h) then s_h div a_h - 1 else s_h div a_h - 2,
                if even \<lfloor>(rat_of_int s_w / 2) / rat_of_int a_w\<rfloor>
                then \<lfloor>(rat_of_int s_w / 2) / rat_of_int a_w\<rfloor> - 1
                else \<lfloor>(rat_of_int s_w / 2) / rat_of_int a_w\<rfloor> - 2)"
proof -
  define qw where "qw = \<lfloor>(rat_of_int s_w / 2) / rat_of_int a_w\<rfloor>"
  have fd: "float_floordiv (rat_of_int s_w / 2) (rat_of_int a_w) = rat_of_int qw"
    unfolding qw_def using s a aw by (rule float_floordiv_exact)
  have qb: "\<bar>qw\<bar> \<le> 2 ^ 52"
  proof -
    from aw have "1 \<le> \<bar>a_w\<bar>" by simp
    then have "rat_of_int 1 \<le> rat_of_int \<bar>a_w\<bar>" by (simp only: of_int_le_iff)
    then have a1: "1 \<le> \<bar>rat_of_int a_w\<bar>" by simp
    from s have "rat_of_int \<bar>s_w\<bar> < rat_of_int (2 ^ 53)" by (simp only: of_int_less_iff)
    then have h: "\<bar>rat_of_int s_w / 2\<bar> < 2 ^ 52" by simp
    have "\<bar>(rat_of_int s_w / 2) / rat_of_int a_w\<bar> = \<bar>rat_of_int s_w / 2\<bar> / \<bar>rat_of_int a_w\<bar>"
      by (simp only: abs_divide)
    also have "\<dots> \<le> \<bar>rat_of_int s_w / 2\<bar> / 1"
      using a1 by (intro divide_left_mono) simp_all
    finally have "\<bar>(rat_of_int s_w / 2) / rat_of_int a_w\<bar> < rat_of_int (2 ^ 52)" using h by simp
    then have "- rat_of_int (2 ^ 52) < (rat_of_int s_w / 2) / rat_of_int a_w"
      and "(rat_of_int s_w / 2) / rat_of_int a_w < rat_of_int (2 ^ 52)"
      by (simp_all only: abs_less_iff minus_minus) linarith+
    then have "- (2 ^ 52) \<le> qw" and "qw < 2 ^ 52"
      unfolding qw_def by (simp_all only: le_floor_iff floor_less_iff of_int_minus less_imp_le)
    then show ?thesis by simp
  qed
  have r1: "round_double (rat_of_int qw - 1) = rat_of_int (qw - 1)"
    using round_double_int [of "qw - 1"] qb by simp
  have r2: "round_double (rat_of_int qw - 2) = rat_of_int (qw - 2)"
    using round_double_int [of "qw - 2"] qb by simp
  have wx0: "rat_of_int a_w \<noteq> 0" using aw by simp
  have "calculate_fleet_size a_h s_h a_w s_w =
      Inr (if (s_h div a_h) mod 2 = 0 then s_h div a_h - 1 else s_h div a_h - 2,
           py_int (if even qw then rat_of_int (qw - 1) else rat_of_int (qw - 2)))"
    unfolding calculate_fleet_size_def Let_def to_double_half [OF s] to_double_int [OF a]
      sum.case fd float_rem_2 r1 r2
    using ah wx0 by simp
  also have "py_int (if even qw then rat_of_int (qw - 1) else rat_of_int (qw - 2))
      = (if even qw then qw - 1 else qw - 2)"
    by (simp only: py_int_of_int if_distrib [of py_int])
  finally show ?thesis unfolding qw_def even_iff_mod_2_eq_zero .
qed



lemma round_half_even_tie: "round_half_even (12384898975268865 / 2) = 6192449487634432"
proof -
  have fl: "\<lfloor>12384898975268865 / 2 :: rat\<rfloor> = 6192449487634432"
    by (rule floor_unique) simp_all
  show ?thesis unfolding round_half_even_def Let_def fl by simp
qed

lemma scale_10: "round_double (10 * (2476979795053773 / 2251799813685248)) = 11"
proof -
  have "round_double (10 * (2476979795053773 / 2251799813685248))
      = rat_of_int (round_half_even (10 * (2476979795053773 / 2251799813685248) / pow2 (- 49))) * pow2 (- 49)"
    by (rule round_double_eval) (simp_all add: pow2_def)
  also have "10 * (2476979795053773 / 2251799813685248) / pow2 (- 49) = 12384898975268865 / 2"
    by (simp add: pow2_def)
  also have "rat_of_int (round_half_even (12384898975268865 / 2)) * pow2 (- 49) = 11"
    unfolding round_half_even_tie by (simp add: pow2_def)
  finally show ?thesis .
qed

lemma scale_20: "round_double (20 * (2476979795053773 / 2251799813685248)) = 22"
proof -
  have "round_double (20 * (2476979795053773 / 2251799813685248))
      = rat_of_int (round_half_even (20 * (2476979795053773 / 2251799813685248) / pow2 (- 48))) * pow2 (- 48)"
    by (rule round_double_eval) (simp_all add: pow2_def)
  also have "20 * (2476979795053773 / 2251799813685248) / pow2 (- 48) = 12384898975268865 / 2"
    by (simp add: pow2_def)
  also have "rat_of_int (round_half_even (12384898975268865 / 2)) * pow2 (- 48) = 22"
    unfolding round_half_even_tie by (simp add: pow2_def)
  finally show ?thesis .
qed

lemma scale_5: "round_double (5 * (2476979795053773 / 2251799813685248)) = 11 / 2"
proof -
  have "round_double (5 * (2476979795053773 / 2251799813685248))
      = rat_of_int (round_half_even (5 * (2476979795053773 / 2251799813685248) / pow2 (- 50))) * pow2 (- 50)"
    by (rule round_double_eval) (simp_all add: pow2_def)
  also have "5 * (2476979795053773 / 2251799813685248) / pow2 (- 50) = 12384898975268865 / 2"
    by (simp add: pow2_def)
  also have "rat_of_int (round_half_even (12384898975268865 / 2)) * pow2 (- 50) = 11 / 2"
    unfolding round_half_even_tie by (simp add: pow2_def)
  finally show ?thesis .
qed

lemma increase_difficulty_first:
  "ship_speed (increase_difficulty Settings_init) = 11
   \<and> bullet_speed (increase_difficulty Settings_init) = 22
   \<and> fleet_speed (increase_difficulty Settings_init) = 11 / 2"
proof -
  have "ship_speed (increase_difficulty Settings_init) = round_double (10 * (2476979795053773 / 2251799813685248))"
    by (simp add: increase_difficulty_def Settings_init_def initialize_dynamic_settings_def)
  moreover have "bullet_speed (increase_difficulty Settings_init) = round_double (20 * (2476979795053773 / 2251799813685248))"
    by (simp add: increase_difficulty_def Settings_init_def initialize_dynamic_settings_def)
  moreover have "fleet_speed (increase_difficulty Settings_init) = round_double (5 * (2476979795053773 / 2251799813685248))"
    by (simp add: increase_difficulty_def Settings_init_def initialize_dynamic_settings_def)
  ultimately show ?thesis by (simp only: scale_10 scale_20 scale_5)
qed

lemma increase_difficulty_static:
  "screen_w (increase_difficulty st) = screen_w st \<and> screen_h (increase_difficulty st) = screen_h st
   \<and> ship_w (increase_difficulty st) = ship_w st \<and> ship_h (increase_difficulty st) = ship_h st
   \<and> alien_w (increase_difficulty st) = alien_w st \<and> alien_h (increase_difficulty st) = alien_h st"
  by (simp add: increase_difficulty_def)

section \<open>Lemmas on the layout loops\<close>

lemma create_rows_eq:
  "create_rows st a_w a_h xo yo col rows af =
     af\<lparr>fleet := fleet af @ cell_aliens st a_w a_h xo yo rows col\<rparr>"
  by (induction rows arbitrary: af)
    (auto simp: create_alien_def Let_def odd_iff_mod_2_eq_one cell_aliens_def)

lemma create_cols_eq:
  "create_cols st fleet_h a_w a_h xo yo cols af =
     af\<lparr>fleet := fleet af @ concat (map (cell_aliens st a_w a_h xo yo [0..fleet_h - 1]) cols)\<rparr>"
  by (induction cols arbitrary: af) (simp_all add: create_rows_eq)

lemma at_cell_Alien_init: "at_cell px py (Alien_init st x y) = (x = px \<and> y = py)"
  by (simp add: at_cell_def Alien_init_def rotated_image_rect_def Let_def)

lemma count_row_cells:
  assumes "a_h \<noteq> 0" and "distinct rows"
  shows "length (filter (at_cell (a_w * col + xo) (a_h * row + yo))
            (cell_aliens st a_w a_h xo yo rows c))
         = (if a_w * c = a_w * col \<and> row \<in> set rows \<and> odd row \<and> odd c then 1 else 0)"
  using assms(2) unfolding cell_aliens_def
proof (induction rows)
  case Nil
  then show ?case by simp
next
  case (Cons r rows)
  then show ?case using assms(1) by (auto simp: at_cell_Alien_init)
qed

lemma count_col_cells:
  assumes "a_h \<noteq> 0" and "a_w \<noteq> 0" and "distinct rows" and "distinct cols"
  shows "length (filter (at_cell (a_w * col + xo) (a_h * row + yo))
            (concat (map (cell_aliens st a_w a_h xo yo rows) cols)))
         = (if col \<in> set cols \<and> row \<in> set rows \<and> odd row \<and> odd col then 1 else 0)"
  using assms(4)
proof (induction cols)
  case Nil
  then show ?case by simp
next
  case (Cons c cols)
  let ?P = "at_cell (a_w * col + xo) (a_h * row + yo)"
  let ?f = "cell_aliens st a_w a_h xo yo rows"
  have split: "length (filter ?P (concat (map ?f (c # cols)))) =
      length (filter ?P (?f c)) + length (filter ?P (concat (map ?f cols)))"
    by simp
  have here: "length (filter ?P (?f c)) = (if c = col \<and> row \<in> set rows \<and> odd row \<and> odd c then 1 else 0)"
    using count_row_cells [OF assms(1,3), of a_w col xo row yo st c] assms(2) by simp
  have rest: "length (filter ?P (concat (map ?f cols))) =
      (if col \<in> set cols \<and> row \<in> set rows \<and> odd row \<and> odd col then 1 else 0)"
    using Cons by simp
  show ?case
    unfolding split here rest using Cons.prems by auto
qed

lemma cell_aliens_member:
  assumes "a \<in> set (concat (map (cell_aliens st a_w a_h xo yo [0..fh - 1]) [0..fw - 1]))"
  shows "\<exists>r c. 0 \<le> r \<and> r < fh \<and> 0 \<le> c \<and> c < fw \<and> odd r \<and> odd c
           \<and> a = Alien_init st (a_w * c + xo) (a_h * r + yo)"
proof -
  from assms obtain c r where "c \<in> set [0..fw - 1]" and "r \<in> set [0..fh - 1]"
    and "odd r" and "odd c" and "a = Alien_init st (a_w * c + xo) (a_h * r + yo)"
    by (auto simp: cell_aliens_def)
  then show ?thesis by (intro exI [of _ r] exI [of _ c]) simp
qed

section \<open>Lemmas on firing\<close>

lemma rect_midleft_set_midleft: "rect_midleft (set_midleft r p) = p"
  by (simp add: rect_midleft_def set_midleft_def rect_centery_def)

lemma Bullet_init_midleft:
  "rect_midleft (bullet_rect (Bullet_init st sh)) = rect_midleft (ship_rect sh)"
  by (simp add: Bullet_init_def Let_def rect_midleft_set_midleft)

lemma fire_times_run:
  "snd (fire_times st n sh) =
     replicate (min n (nat (bullet_amount st) - length (arsenal sh))) True
     @ replicate (n - (nat (bullet_amount st) - length (arsenal sh))) False
   \<and> length (arsenal (fst (fire_times st n sh))) =
       length (arsenal sh) + min n (nat (bullet_amount st) - length (arsenal sh))"
proof (induction n arbitrary: sh)
  case 0
  show ?case by simp
next
  case (Suc n)
  show ?case
  proof (cases "int (length (arsenal sh)) < bullet_amount st")
    case True
    let ?sh1 = "sh\<lparr>arsenal := arsenal sh @ [Bullet_init st sh]\<rparr>"
    have fire: "fire_bullet st sh = (?sh1, True)"
      using True by (simp add: fire_bullet_def Let_def)
    from True have lt: "length (arsenal sh) < nat (bullet_amount st)" by linarith
    have len: "length (arsenal ?sh1) = Suc (length (arsenal sh))" by simp
    from lt have m: "min (Suc n) (nat (bullet_amount st) - length (arsenal sh)) =
        Suc (min n (nat (bullet_amount st) - Suc (length (arsenal sh))))"
      by linarith
    from lt have d: "Suc n - (nat (bullet_amount st) - length (arsenal sh)) =
        n - (nat (bullet_amount st) - Suc (length (arsenal sh)))"
      by linarith
    from Suc.IH [of ?sh1] show ?thesis
      unfolding fire_times.simps fire len m d by (simp add: split_beta)
  next
    case False
    have fire: "fire_bullet st sh = (sh, False)"
      using False by (simp add: fire_bullet_def)
    from False have z: "nat (bullet_amount st) - length (arsenal sh) = 0" by linarith
    from Suc.IH [of sh] show ?thesis
      unfolding fire_times.simps fire z by (simp add: split_beta)
  qed
qed

section \<open>Lemmas on the statistics\<close>

lemma update_score_loop_fields:
  "score (update_score_loop st vs gs) = score gs + alien_points st * int (length vs)
   \<and> max_score (update_score_loop st vs gs) = max_score gs
   \<and> hi_score (update_score_loop st vs gs) = hi_score gs
   \<and> ships_left (update_score_loop st vs gs) = ships_left gs
   \<and> level (update_score_loop st vs gs) = level gs"
  by (induction vs arbitrary: gs) (simp_all add: algebra_simps)

lemma GameStats_update_fields:
  "score (GameStats_update st c gs) = score gs + alien_points st * int (length c)
   \<and> max_score (GameStats_update st c gs) = max (max_score gs) (score gs + alien_points st * int (length c))
   \<and> hi_score (GameStats_update st c gs) = max (hi_score gs) (score gs + alien_points st * int (length c))"
  using update_score_loop_fields [of st "map snd c" gs]
  by (simp add: GameStats_update_def update_hi_score_def update_max_score_def update_score_def)










section \<open>Lemmas on level reset and life loss\<close>

lemma create_fleet_ok:
  assumes "alien_h st \<noteq> 0" and "alien_w st \<noteq> 0" and "layout_in_range st"
  shows "\<exists>added. create_fleet st af = Inr (af\<lparr>fleet := fleet af @ added\<rparr>)"
proof -
  from assms(3) have "\<bar>screen_w st\<bar> < 2 ^ 53" and "\<bar>alien_w st\<bar> < 2 ^ 53"
    by (simp_all add: layout_in_range_def)
  from calculate_fleet_size_exact [OF assms(1,2) this, of "screen_h st"] obtain fh fw where
    "calculate_fleet_size (alien_h st) (screen_h st) (alien_w st) (screen_w st) = Inr (fh, fw)"
    by blast
  moreover obtain xo yo where
    "calculate_offsets (alien_h st) fh (alien_w st) fw (screen_h st) (screen_w st) = (xo, yo)"
    by (cases "calculate_offsets (alien_h st) fh (alien_w st) fw (screen_h st) (screen_w st)")
  ultimately have "create_fleet st af =
      Inr (af\<lparr>fleet := fleet af @ concat (map (cell_aliens st (alien_w st) (alien_h st) xo yo
              [0..fh - 1]) [0..fw - 1])\<rparr>)"
    by (simp add: create_fleet_def create_rectangle_fleet_def create_cols_eq)
  then show ?thesis by blast
qed

lemma reset_level_ok:
  assumes "alien_h (settings g) \<noteq> 0" and "alien_w (settings g) \<noteq> 0"
    and "layout_in_range (settings g)"
  shows "\<exists>af. create_fleet (settings g) ((alien_fleet g)\<lparr>fleet := []\<rparr>) = Inr af
           \<and> reset_level g = Inr (g\<lparr>ship := (ship g)\<lparr>arsenal := []\<rparr>, alien_fleet := af\<rparr>)"
proof -
  from create_fleet_ok [OF assms, of "(alien_fleet g)\<lparr>fleet := []\<rparr>"]
  obtain af where "create_fleet (settings g) ((alien_fleet g)\<lparr>fleet := []\<rparr>) = Inr af"
    by blast
  then show ?thesis by (simp add: reset_level_def Let_def)
qed

lemma check_game_status_lives:
  assumes "alien_h (settings g) \<noteq> 0" and "alien_w (settings g) \<noteq> 0"
    and "layout_in_range (settings g)"
    and "0 < ships_left (game_stats g)"
  shows "\<exists>af. create_fleet (settings g) ((alien_fleet g)\<lparr>fleet := []\<rparr>) = Inr af
           \<and> check_game_status g =
               Inr (g\<lparr>game_stats := (game_stats g)\<lparr>ships_left := ships_left (game_stats g) - 1\<rparr>,
                      ship := (ship g)\<lparr>arsenal := []\<rparr>, alien_fleet := af\<rparr>)"
proof -
  let ?g1 = "g\<lparr>game_stats := (game_stats g)\<lparr>ships_left := ships_left (game_stats g) - 1\<rparr>\<rparr>"
  have "alien_h (settings ?g1) \<noteq> 0" and "alien_w (settings ?g1) \<noteq> 0"
    and "layout_in_range (settings ?g1)"
    using assms(1,2,3) by simp_all
  from reset_level_ok [OF this] assms(4) show ?thesis
    by (simp add: check_game_status_def)
qed

lemma check_game_status_over:
  "\<not> 0 < ships_left (game_stats g) \<Longrightarrow> check_game_status g = Inr (g\<lparr>game_active := False\<rparr>)"
  by (simp add: check_game_status_def)

lemma life_losses_snoc:
  "life_losses (Suc n) g =
     (case life_losses n g of Inl e \<Rightarrow> Inl e | Inr g1 \<Rightarrow> check_game_status g1)"
proof (induction n arbitrary: g)
  case 0
  show ?case by (simp split: sum.splits)
next
  case (Suc n)
  show ?case
  proof (cases "check_game_status g")
    case (Inl e)
    then show ?thesis by simp
  next
    case (Inr g1)
    have "life_losses (Suc (Suc n)) g = life_losses (Suc n) g1"
      using Inr by simp
    also have "\<dots> = (case life_losses n g1 of Inl e \<Rightarrow> Inl e | Inr g2 \<Rightarrow> check_game_status g2)"
      by (rule Suc.IH)
    also have "\<dots> = (case life_losses (Suc n) g of Inl e \<Rightarrow> Inl e | Inr g2 \<Rightarrow> check_game_status g2)"
      using Inr by simp
    finally show ?thesis .
  qed
qed

lemma life_losses_playing:
  assumes "alien_h (settings g) \<noteq> 0" and "alien_w (settings g) \<noteq> 0"
    and "layout_in_range (settings g)"
    and "int n \<le> ships_left (game_stats g)"
  shows "\<exists>g'. life_losses n g = Inr g'
           \<and> ships_left (game_stats g') = ships_left (game_stats g) - int n
           \<and> game_active g' = game_active g
           \<and> settings g' = settings g
           \<and> score (game_stats g') = score (game_stats g)
           \<and> level (game_stats g') = level (game_stats g)"
  using assms
proof (induction n arbitrary: g)
  case 0
  show ?case by simp
next
  case (Suc n)
  from Suc.prems(4) have pos: "0 < ships_left (game_stats g)" by simp
  from check_game_status_lives [OF Suc.prems(1,2,3) pos] obtain af where
    step: "check_game_status g =
       Inr (g\<lparr>game_stats := (game_stats g)\<lparr>ships_left := ships_left (game_stats g) - 1\<rparr>,
              ship := (ship g)\<lparr>arsenal := []\<rparr>, alien_fleet := af\<rparr>)"
    by blast
  let ?g1 = "g\<lparr>game_stats := (game_stats g)\<lparr>ships_left := ships_left (game_stats g) - 1\<rparr>,
              ship := (ship g)\<lparr>arsenal := []\<rparr>, alien_fleet := af\<rparr>"
  have "alien_h (settings ?g1) \<noteq> 0" and "alien_w (settings ?g1) \<noteq> 0"
    and "layout_in_range (settings ?g1)"
    and "int n \<le> ships_left (game_stats ?g1)"
    using Suc.prems by simp_all
  from Suc.IH [OF this] obtain g' where
    "life_losses n ?g1 = Inr g'"
    "ships_left (game_stats g') = ships_left (game_stats ?g1) - int n"
    "game_active g' = game_active ?g1" "settings g' = settings ?g1"
    "score (game_stats g') = score (game_stats ?g1)"
    "level (game_stats g') = level (game_stats ?g1)"
    by blast
  then show ?case using step by simp
qed

lemma life_losses_end:
  assumes "alien_h (settings g) \<noteq> 0" and "alien_w (settings g) \<noteq> 0"
    and "layout_in_range (settings g)"
    and "ships_left (game_stats g) = int n"
  shows "\<exists>g' g''. life_losses n g = Inr g' \<and> ships_left (game_stats g') = 0
           \<and> game_active g' = game_active g
           \<and> life_losses (Suc n) g = Inr g'' \<and> ships_left (game_stats g'') = 0
           \<and> \<not> game_active g''"
proof -
  from assms(4) have "int n \<le> ships_left (game_stats g)" by simp
  from life_losses_playing [OF assms(1,2,3) this] assms(4) obtain g' where
    g': "life_losses n g = Inr g'" "ships_left (game_stats g') = 0"
      "game_active g' = game_active g"
    by auto
  from g'(2) have "check_game_status g' = Inr (g'\<lparr>game_active := False\<rparr>)"
    by (simp add: check_game_status_over)
  with g'(1) have "life_losses (Suc n) g = Inr (g'\<lparr>game_active := False\<rparr>)"
    unfolding life_losses_snoc by simp
  with g' show ?thesis by simp
qed

lemma restart_game_ok:
  assumes "alien_h (settings g) \<noteq> 0" and "alien_w (settings g) \<noteq> 0"
    and "layout_in_range (settings g)"
  shows "\<exists>g'. restart_game g = Inr g'
           \<and> settings g' = initialize_dynamic_settings (settings g)
           \<and> game_stats g' = reset_stats (initialize_dynamic_settings (settings g)) (game_stats g)
           \<and> game_active g'"
proof -
  let ?g2 = "g\<lparr>settings := initialize_dynamic_settings (settings g),
      game_stats := reset_stats (initialize_dynamic_settings (settings g)) (game_stats g)\<rparr>"
  have "alien_h (settings ?g2) \<noteq> 0" and "alien_w (settings ?g2) \<noteq> 0"
    and "layout_in_range (settings ?g2)"
    using assms by (simp_all add: initialize_dynamic_settings_def layout_in_range_def)
  from reset_level_ok [OF this] obtain af where
    "reset_level ?g2 = Inr (?g2\<lparr>ship := (ship ?g2)\<lparr>arsenal := []\<rparr>, alien_fleet := af\<rparr>)"
    by blast
  then show ?thesis by (simp add: restart_game_def Let_def)
qed

lemma Settings_init_dims: "alien_h Settings_init = 40 \<and> alien_w Settings_init = 40
    \<and> starting_ship_count Settings_init = 3"
  by (simp add: Settings_init_def initialize_dynamic_settings_def)

lemma Settings_init_in_range: "layout_in_range Settings_init"
  by (simp add: layout_in_range_def Settings_init_def initialize_dynamic_settings_def)

lemma new_session_ok:
  "\<exists>g. new_session = Inr g \<and> alien_h (settings g) \<noteq> 0 \<and> alien_w (settings g) \<noteq> 0
       \<and> layout_in_range (settings g)
       \<and> ships_left (game_stats g) = 3 \<and> game_active g"
proof -
  let ?d = "\<lparr>scores_path = Missing, write_raises = None, printed = []\<rparr>"
  have nz: "alien_h Settings_init \<noteq> 0" "alien_w Settings_init \<noteq> 0"
    "layout_in_range Settings_init"
    using Settings_init_dims Settings_init_in_range by simp_all
  obtain d1 gs where gs: "GameStats_init Settings_init ?d = Inr (d1, gs)"
    by (simp add: GameStats_init_def init_saved_scores_def save_scores_def Let_def)
  from create_fleet_ok [OF nz] obtain af where af: "AlienFleet_init Settings_init = Inr af"
    unfolding AlienFleet_init_def by blast
  from create_fleet_ok [OF nz] obtain af1 where af1: "create_fleet Settings_init af = Inr af1"
    by blast
  let ?g = "\<lparr>settings = Settings_init, game_stats = gs, ship = Ship_init Settings_init,
             alien_fleet = af1, game_active = False\<rparr>"
  have init: "AlienInvasion_init ?d = Inr (d1, ?g)"
    by (simp add: AlienInvasion_init_def Let_def gs af af1)
  have "alien_h (settings ?g) \<noteq> 0" and "alien_w (settings ?g) \<noteq> 0"
    and "layout_in_range (settings ?g)"
    using nz by simp_all
  from restart_game_ok [OF this] obtain g' where
    g': "restart_game ?g = Inr g'" "settings g' = initialize_dynamic_settings Settings_init"
      "game_stats g' = reset_stats (initialize_dynamic_settings Settings_init) gs" "game_active g'"
    by auto
  have "new_session = Inr g'"
    by (simp add: new_session_def init g'(1))
  moreover have "alien_h (settings g') \<noteq> 0" "alien_w (settings g') \<noteq> 0"
    "layout_in_range (settings g')" "ships_left (game_stats g') = 3"
    using g'(2,3) nz
    by (simp_all add: initialize_dynamic_settings_def reset_stats_def layout_in_range_def)
  ultimately show ?thesis using g'(4) by blast
qed

lemma lives_after_values:
  "lives_after 2 = Inr (1, True) \<and> lives_after 3 = Inr (0, True) \<and> lives_after 4 = Inr (0, False)"
proof -
  from new_session_ok obtain g where
    g: "new_session = Inr g" "alien_h (settings g) \<noteq> 0" "alien_w (settings g) \<noteq> 0"
      "ships_left (game_stats g) = 3" "game_active g" "layout_in_range (settings g)"
    by blast
  have "int 2 \<le> ships_left (game_stats g)" using g(4) by simp
  from life_losses_playing [OF g(2,3,6) this] g(4,5) obtain g2 where
    "life_losses 2 g = Inr g2" "ships_left (game_stats g2) = 1" "game_active g2"
    by auto
  then have two: "lives_after 2 = Inr (1, True)"
    by (simp add: lives_after_def g(1))
  have "ships_left (game_stats g) = int 3" using g(4) by simp
  from life_losses_end [OF g(2,3,6) this] g(5) obtain g3 g4 where
    "life_losses 3 g = Inr g3" "ships_left (game_stats g3) = 0" "game_active g3"
    "life_losses (Suc 3) g = Inr g4" "ships_left (game_stats g4) = 0" "\<not> game_active g4"
    by auto
  then have "lives_after 3 = Inr (0, True)" and "lives_after (Suc 3) = Inr (0, False)"
    by (simp_all add: lives_after_def g(1))
  moreover have "Suc 3 = 4" by simp
  ultimately show ?thesis using two by (simp del: life_losses.simps)
qed

section \<open>Lemmas on the fleet advance\<close>





section \<open>Lemmas on collision resolution\<close>

lemma spritecollide_eq:
  "spritecollide a bs = (filter (hits a) bs, filter (\<lambda>b. \<not> hits a b) bs)"
  by (induction bs) (simp_all add: hits_def)

lemma untouched_Cons: "untouched (a # as) bs = untouched as (filter (\<lambda>b. \<not> hits a b) bs)"
  by (simp add: untouched_def conj_commute)

lemma untouched_append: "untouched (pre @ as) bs = untouched as (untouched pre bs)"
  by (induction pre arbitrary: bs) (simp_all add: untouched_Cons, simp add: untouched_def)

lemma groupcollide_Cons:
  "groupcollide (a # as) bs =
     (if list_ex (hits a) bs
      then ((a, filter (hits a) bs) # fst (groupcollide as (filter (\<lambda>b. \<not> hits a b) bs)),
            fst (snd (groupcollide as (filter (\<lambda>b. \<not> hits a b) bs))),
            snd (snd (groupcollide as (filter (\<lambda>b. \<not> hits a b) bs))))
      else (fst (groupcollide as bs), a # fst (snd (groupcollide as bs)),
            snd (snd (groupcollide as bs))))"
proof (cases "list_ex (hits a) bs")
  case True
  then have "filter (hits a) bs \<noteq> []"
    by (simp add: filter_empty_conv list_ex_iff)
  with True show ?thesis
    by (simp add: spritecollide_eq case_prod_beta)
next
  case False
  then have "filter (hits a) bs = []" and "filter (\<lambda>b. \<not> hits a b) bs = bs"
    by (simp_all add: filter_empty_conv list_ex_iff filter_id_conv)
  with False show ?thesis
    by (simp add: spritecollide_eq case_prod_beta)
qed

lemma untouched_miss: "\<not> list_ex (hits a) bs \<Longrightarrow> filter (\<lambda>b. \<not> hits a b) bs = bs"
  by (simp add: list_ex_iff filter_id_conv)

lemma groupcollide_left: "snd (snd (groupcollide as bs)) = untouched as bs"
proof (induction as arbitrary: bs)
  case Nil
  show ?case by (simp add: untouched_def)
next
  case (Cons a as)
  show ?case
  proof (cases "list_ex (hits a) bs")
    case True
    with Cons.IH [of "filter (\<lambda>b. \<not> hits a b) bs"] show ?thesis
      unfolding groupcollide_Cons untouched_Cons by simp
  next
    case False
    with Cons.IH [of bs] show ?thesis
      unfolding groupcollide_Cons untouched_Cons by (simp add: untouched_miss)
  qed
qed

lemma groupcollide_append:
  "groupcollide (pre @ as) bs =
     (fst (groupcollide pre bs) @ fst (groupcollide as (untouched pre bs)),
      fst (snd (groupcollide pre bs)) @ fst (snd (groupcollide as (untouched pre bs))),
      snd (snd (groupcollide as (untouched pre bs))))"
proof (induction pre arbitrary: bs)
  case Nil
  show ?case by (simp add: untouched_def)
next
  case (Cons a pre)
  show ?case
  proof (cases "list_ex (hits a) bs")
    case True
    have "groupcollide ((a # pre) @ as) bs = groupcollide (a # (pre @ as)) bs" by simp
    also have "\<dots> =
        ((a, filter (hits a) bs) # fst (groupcollide (pre @ as) (filter (\<lambda>b. \<not> hits a b) bs)),
         fst (snd (groupcollide (pre @ as) (filter (\<lambda>b. \<not> hits a b) bs))),
         snd (snd (groupcollide (pre @ as) (filter (\<lambda>b. \<not> hits a b) bs))))"
      using True by (simp only: groupcollide_Cons if_True)
    finally show ?thesis
      using True
      by (simp only: Cons.IH [of "filter (\<lambda>b. \<not> hits a b) bs"] groupcollide_Cons [of a pre bs]
          untouched_Cons if_True fst_conv snd_conv append_Cons)
  next
    case False
    have "groupcollide ((a # pre) @ as) bs = groupcollide (a # (pre @ as)) bs" by simp
    also have "\<dots> =
        (fst (groupcollide (pre @ as) bs), a # fst (snd (groupcollide (pre @ as) bs)),
         snd (snd (groupcollide (pre @ as) bs)))"
      using False by (simp only: groupcollide_Cons if_False)
    finally show ?thesis
      using False
      by (simp only: Cons.IH [of bs] groupcollide_Cons [of a pre bs]
          untouched_Cons untouched_miss [OF False] if_False fst_conv snd_conv append_Cons)
  qed
qed

lemma groupcollide_bullets:
  "mset bs = mset (snd (snd (groupcollide as bs))) + mset (concat (map snd (fst (groupcollide as bs))))"
proof (induction as arbitrary: bs)
  case Nil
  show ?case by simp
next
  case (Cons a as)
  show ?case
  proof (cases "list_ex (hits a) bs")
    case True
    let ?bs' = "filter (\<lambda>b. \<not> hits a b) bs"
    have "mset bs = mset (filter (hits a) bs) + mset ?bs'" by simp
    also have "mset ?bs' = mset (snd (snd (groupcollide as ?bs')))
        + mset (concat (map snd (fst (groupcollide as ?bs'))))"
      by (rule Cons.IH)
    finally have calc: "mset bs = mset (filter (hits a) bs)
        + (mset (snd (snd (groupcollide as ?bs'))) + mset (concat (map snd (fst (groupcollide as ?bs')))))" .
    have shape: "snd (snd (groupcollide (a # as) bs)) = snd (snd (groupcollide as ?bs'))"
      "concat (map snd (fst (groupcollide (a # as) bs))) =
         filter (hits a) bs @ concat (map snd (fst (groupcollide as ?bs')))"
      using True by (simp_all only: groupcollide_Cons if_True fst_conv snd_conv list.map concat.simps)
    show ?thesis
      unfolding shape mset_append by (subst calc) (rule add.left_commute)
  next
    case False
    have shape: "snd (snd (groupcollide (a # as) bs)) = snd (snd (groupcollide as bs))"
      "fst (groupcollide (a # as) bs) = fst (groupcollide as bs)"
      using False by (simp_all only: groupcollide_Cons if_False fst_conv snd_conv)
    show ?thesis unfolding shape by (rule Cons.IH)
  qed
qed

lemma groupcollide_aliens:
  "mset as = mset (map fst (fst (groupcollide as bs))) + mset (fst (snd (groupcollide as bs)))"
proof (induction as arbitrary: bs)
  case Nil
  show ?case by simp
next
  case (Cons a as)
  show ?case
  proof (cases "list_ex (hits a) bs")
    case True
    from Cons.IH [of "filter (\<lambda>b. \<not> hits a b) bs"] True show ?thesis
      unfolding groupcollide_Cons by simp
  next
    case False
    from Cons.IH [of bs] False show ?thesis
      unfolding groupcollide_Cons by simp
  qed
qed

lemma groupcollide_entries:
  "list_all (\<lambda>(a, bl). bl \<noteq> [] \<and> list_all (hits a) bl) (fst (groupcollide as bs))"
proof (induction as arbitrary: bs)
  case Nil
  show ?case by simp
next
  case (Cons a as)
  show ?case
  proof (cases "list_ex (hits a) bs")
    case True
    then have "filter (hits a) bs \<noteq> []"
      by (simp add: filter_empty_conv list_ex_iff)
    with Cons.IH [of "filter (\<lambda>b. \<not> hits a b) bs"] True show ?thesis
      unfolding groupcollide_Cons by (simp add: list_all_iff)
  next
    case False
    with Cons.IH [of bs] show ?thesis
      unfolding groupcollide_Cons by simp
  qed
qed

section \<open>Lemmas on the scores file\<close>

lemma dumps_size_large: "20 < dumps_size h"
proof -
  have "0 < decimal_digits n" for n
    by (subst decimal_digits.simps) simp
  then show ?thesis by (simp add: dumps_size_def)
qed

lemma dumps_size_0: "dumps_size 0 = 21"
  by (simp add: dumps_size_def)

section \<open>Lemmas on the ship's movement\<close>

lemma Ship_update_up:
  assumes whole: "\<And>k. to_px (rat_of_int k) = k"
    and "ship_speed st = rat_of_int v"
    and "moving_up sh" and "\<not> moving_down sh" and "arsenal sh = []"
    and "ship_y sh = rat_of_int (rect_y (ship_rect sh))"
    and "0 < rect_y (ship_rect sh)"
  shows "Ship_update to_px st sh =
     sh\<lparr>ship_y := rat_of_int (rect_y (ship_rect sh) - v),
        ship_rect := (ship_rect sh)\<lparr>rect_y := rect_y (ship_rect sh) - v\<rparr>\<rparr>"
proof -
  have "to_px (rat_of_int (rect_y (ship_rect sh)) - rat_of_int v) = rect_y (ship_rect sh) - v"
    using whole [of "rect_y (ship_rect sh) - v"] by simp
  with assms(2-) show ?thesis
    by (simp add: Ship_update_def update_ship_movement_def update_arsenal_def
        remove_bullets_offscreen_def Let_def rect_top_def screen_rect_def)
qed

lemma Ship_update_up_run:
  assumes whole: "\<And>k. to_px (rat_of_int k) = k"
    and "ship_speed st = rat_of_int v" and "0 < v"
    and "moving_up sh" and "\<not> moving_down sh" and "arsenal sh = []"
    and "ship_y sh = rat_of_int (rect_y (ship_rect sh))"
  shows "int n * v < rect_y (ship_rect sh) + v \<Longrightarrow>
     (Ship_update to_px st ^^ n) sh =
       sh\<lparr>ship_y := rat_of_int (rect_y (ship_rect sh) - int n * v),
          ship_rect := (ship_rect sh)\<lparr>rect_y := rect_y (ship_rect sh) - int n * v\<rparr>\<rparr>"
proof (induction n)
  case 0
  show ?case using assms(7) by simp
next
  case (Suc n)
  let ?k = "rect_y (ship_rect sh)"
  let ?s = "sh\<lparr>ship_y := rat_of_int (?k - int n * v),
          ship_rect := (ship_rect sh)\<lparr>rect_y := ?k - int n * v\<rparr>\<rparr>"
  from Suc.prems have pos: "int n * v < ?k" by (simp add: algebra_simps)
  with assms(3) have "int n * v < ?k + v" by simp
  then have run: "(Ship_update to_px st ^^ n) sh = ?s" by (rule Suc.IH)
  have "Ship_update to_px st ?s =
      ?s\<lparr>ship_y := rat_of_int (rect_y (ship_rect ?s) - v),
         ship_rect := (ship_rect ?s)\<lparr>rect_y := rect_y (ship_rect ?s) - v\<rparr>\<rparr>"
    using assms(2,4,5,6) pos by (intro Ship_update_up [OF whole]) simp_all
  then show ?case
    by (simp add: run algebra_simps)
qed

lemma Ship_update_on_grid:
  assumes whole: "\<And>k. to_px (rat_of_int k) = k"
    and "ship_speed st = 10" and "screen_h st = 800" and "on_grid sh"
  shows "on_grid (Ship_update to_px st sh)"
proof -
  let ?y = "rect_y (ship_rect sh)"
  from assms(4) have g: "ship_y sh = rat_of_int ?y" "rect_h (ship_rect sh) = 40"
    "10 dvd ?y" "0 \<le> ?y" "?y \<le> 760"
    by (simp_all add: on_grid_def)
  have up: "10 \<le> ?y" if "0 < ?y" using that g(3) by presburger
  have down: "?y \<le> 750" if "?y < 760" using that g(3) by presburger
  have c1: "to_px (rat_of_int k - 10) = k - 10" for k
    using whole [of "k - 10"] by simp
  have c2: "to_px (rat_of_int k + 10) = k + 10" for k
    using whole [of "k + 10"] by simp
  show ?thesis
    using g up down
    by (auto simp add: on_grid_def Ship_update_def update_ship_movement_def Let_def assms(2,3)
        rect_top_def rect_bottom_def screen_rect_def c1 c2 whole)
qed

lemma hold_keys_on_grid:
  assumes whole: "\<And>k. to_px (rat_of_int k) = k"
    and "ship_speed st = 10" and "screen_h st = 800"
  shows "on_grid sh \<Longrightarrow> on_grid (hold_keys to_px st ks sh)"
proof (induction ks arbitrary: sh)
  case Nil
  then show ?case by simp
next
  case (Cons k ks)
  from Cons.prems have "on_grid (sh\<lparr>moving_up := fst k, moving_down := snd k\<rparr>)"
    by (simp add: on_grid_def)
  then have "on_grid (Ship_update to_px st (sh\<lparr>moving_up := fst k, moving_down := snd k\<rparr>))"
    by (rule Ship_update_on_grid [OF whole assms(2,3)])
  then show ?case by (simp add: Cons.IH)
qed

lemma px_pos:
  assumes whole: "\<And>k. to_px (rat_of_int k) = k"
    and incr: "mono to_px"
  shows "0 < to_px y \<Longrightarrow> 0 < y"
proof (rule ccontr)
  assume "0 < to_px y" and "\<not> 0 < y"
  then have "y \<le> rat_of_int 0" by simp
  then have "to_px y \<le> to_px (rat_of_int 0)" by (rule monoD [OF incr])
  with \<open>0 < to_px y\<close> show False unfolding whole by simp
qed

lemma px_less:
  assumes whole: "\<And>k. to_px (rat_of_int k) = k"
    and incr: "mono to_px"
  shows "to_px y < k \<Longrightarrow> y < rat_of_int k"
proof (rule ccontr)
  assume "to_px y < k" and "\<not> y < rat_of_int k"
  then have "rat_of_int k \<le> y" by simp
  then have "to_px (rat_of_int k) \<le> to_px y" by (rule monoD [OF incr])
  with \<open>to_px y < k\<close> show False unfolding whole by simp
qed

lemma px_near:
  assumes whole: "\<And>k. to_px (rat_of_int k) = k"
    and incr: "mono to_px"
  shows "y - 1 < rat_of_int (to_px y) \<and> rat_of_int (to_px y) < y + 1"
proof -
  have "rat_of_int \<lfloor>y\<rfloor> \<le> y" by (rule of_int_floor_le)
  then have "to_px (rat_of_int \<lfloor>y\<rfloor>) \<le> to_px y" by (rule monoD [OF incr])
  then have "\<lfloor>y\<rfloor> \<le> to_px y" unfolding whole .
  then have lo: "rat_of_int \<lfloor>y\<rfloor> \<le> rat_of_int (to_px y)" by (simp only: of_int_le_iff)
  have "y \<le> rat_of_int \<lceil>y\<rceil>" by (rule le_of_int_ceiling)
  then have "to_px y \<le> to_px (rat_of_int \<lceil>y\<rceil>)" by (rule monoD [OF incr])
  then have "to_px y \<le> \<lceil>y\<rceil>" unfolding whole .
  then have hi: "rat_of_int (to_px y) \<le> rat_of_int \<lceil>y\<rceil>" by (simp only: of_int_le_iff)
  have "y - 1 < rat_of_int \<lfloor>y\<rfloor>" by linarith
  moreover have "rat_of_int \<lceil>y\<rceil> < y + 1" by linarith
  ultimately show ?thesis using lo hi by linarith
qed

lemma Ship_update_near_screen:
  assumes whole: "\<And>k. to_px (rat_of_int k) = k"
    and incr: "mono to_px"
    and "0 < ship_speed st" and "near_screen to_px st sh"
  shows "near_screen to_px st (Ship_update to_px st sh)"
proof -
  let ?s = "ship_speed st"
  let ?b = "rat_of_int (screen_h st - rect_h (ship_rect sh))"
  from assms(4) have n: "rect_y (ship_rect sh) = to_px (ship_y sh)"
    "rect_h (ship_rect sh) \<le> screen_h st" "- ?s < ship_y sh" "ship_y sh < ?b + ?s"
    by (simp_all add: near_screen_def)
  have up: "0 < ship_y sh" if "0 < to_px (ship_y sh)"
    using that by (rule px_pos [OF whole incr])
  have down: "ship_y sh < ?b" if "to_px (ship_y sh) + rect_h (ship_rect sh) < screen_h st"
  proof -
    from that have "to_px (ship_y sh) < screen_h st - rect_h (ship_rect sh)" by simp
    then show ?thesis by (rule px_less [OF whole incr])
  qed
  from n(2) have b0: "0 \<le> ?b" by simp
  show ?thesis
    using n up down b0 assms(3)
    by (auto simp add: near_screen_def Ship_update_def update_ship_movement_def Let_def
        rect_top_def rect_bottom_def screen_rect_def)
qed

lemma hold_keys_near_screen:
  assumes whole: "\<And>k. to_px (rat_of_int k) = k"
    and incr: "mono to_px"
    and "0 < ship_speed st"
  shows "near_screen to_px st sh \<Longrightarrow> near_screen to_px st (hold_keys to_px st ks sh)"
proof (induction ks arbitrary: sh)
  case Nil
  then show ?case by simp
next
  case (Cons k ks)
  from Cons.prems have "near_screen to_px st (sh\<lparr>moving_up := fst k, moving_down := snd k\<rparr>)"
    by (simp add: near_screen_def)
  then have "near_screen to_px st
      (Ship_update to_px st (sh\<lparr>moving_up := fst k, moving_down := snd k\<rparr>))"
    by (rule Ship_update_near_screen [OF whole incr assms(3)])
  then show ?case by (simp add: Cons.IH)
qed

section \<open>Fleet size\<close>




text \<open>
  A screen width whose half is beyond the largest double makes the true division raise
  \<open>OverflowError\<close>.
\<close>

theorem calculate_fleet_size_overflow:
  "calculate_fleet_size 1 3 1 (2 ^ 1025) = Inl OverflowError"
proof -
  have q: "rat_of_int (2 ^ 1025) / 2 = rat_of_int 1 * pow2 1024"
    by (simp add: pow2_def)
  have "round_double (rat_of_int (2 ^ 1025) / 2) = rat_of_int (2 ^ 1025) / 2"
    using q by (rule round_double_exact) simp_all
  also have "rat_of_int (2 ^ 1025) / 2 = 2 ^ 1024" by simp
  finally have "to_double (rat_of_int (2 ^ 1025) / 2) = Inl OverflowError"
    unfolding to_double_def by simp
  then show ?thesis unfolding calculate_fleet_size_def Let_def by simp
qed

section \<open>Fleet layout\<close>

text \<open>
  C7. The layout puts exactly one alien in a grid cell when both its row index and its
  column index are odd and none in the other cells: the number of aliens of the group at
  the position of cell (row, col) grows by one in the first case and stays the same in the
  second. Every alien added belongs to a cell with odd row and odd column and stands at
  \<open>x_offset + col * alien_w\<close>, \<open>y_offset + row * alien_h\<close>.
\<close>

theorem create_rectangle_fleet_checkerboard:
  assumes "a_w \<noteq> 0" and "a_h \<noteq> 0"
    and "0 \<le> row" and "row < fleet_h" and "0 \<le> col" and "col < fleet_w"
  shows "length (filter (at_cell (a_w * col + x_offset) (a_h * row + y_offset))
            (fleet (create_rectangle_fleet st fleet_w fleet_h a_w a_h x_offset y_offset af)))
         = length (filter (at_cell (a_w * col + x_offset) (a_h * row + y_offset)) (fleet af))
           + (if odd row \<and> odd col then 1 else 0)
       \<and> (\<exists>added.
            create_rectangle_fleet st fleet_w fleet_h a_w a_h x_offset y_offset af
              = af\<lparr>fleet := fleet af @ added\<rparr>
          \<and> (\<forall>a \<in> set added. \<exists>r c. 0 \<le> r \<and> r < fleet_h \<and> 0 \<le> c \<and> c < fleet_w
                 \<and> odd r \<and> odd c
                 \<and> a = Alien_init st (a_w * c + x_offset) (a_h * r + y_offset)
                 \<and> rect_x (alien_rect a) = x_offset + c * a_w
                 \<and> rect_y (alien_rect a) = y_offset + r * a_h
                 \<and> alien_x a = rat_of_int (x_offset + c * a_w)
                 \<and> alien_y a = rat_of_int (y_offset + r * a_h)))"
proof -
  let ?added = "concat (map (cell_aliens st a_w a_h x_offset y_offset [0..fleet_h - 1]) [0..fleet_w - 1])"
  have eq: "create_rectangle_fleet st fleet_w fleet_h a_w a_h x_offset y_offset af
      = af\<lparr>fleet := fleet af @ ?added\<rparr>"
    by (simp add: create_rectangle_fleet_def create_cols_eq)
  have "length (filter (at_cell (a_w * col + x_offset) (a_h * row + y_offset)) ?added)
      = (if odd row \<and> odd col then 1 else 0)"
    using count_col_cells [OF assms(2,1), of "[0..fleet_h - 1]" "[0..fleet_w - 1]" col x_offset row y_offset st]
      assms(3-6) by simp
  then have count: "length (filter (at_cell (a_w * col + x_offset) (a_h * row + y_offset))
            (fleet (create_rectangle_fleet st fleet_w fleet_h a_w a_h x_offset y_offset af)))
         = length (filter (at_cell (a_w * col + x_offset) (a_h * row + y_offset)) (fleet af))
           + (if odd row \<and> odd col then 1 else 0)"
    unfolding eq by simp
  have "\<exists>r c. 0 \<le> r \<and> r < fleet_h \<and> 0 \<le> c \<and> c < fleet_w
                 \<and> odd r \<and> odd c
                 \<and> a = Alien_init st (a_w * c + x_offset) (a_h * r + y_offset)
                 \<and> rect_x (alien_rect a) = x_offset + c * a_w
                 \<and> rect_y (alien_rect a) = y_offset + r * a_h
                 \<and> alien_x a = rat_of_int (x_offset + c * a_w)
                 \<and> alien_y a = rat_of_int (y_offset + r * a_h)" if "a \<in> set ?added" for a
  proof -
    from cell_aliens_member [OF that] obtain r c where
      rc: "0 \<le> r" "r < fleet_h" "0 \<le> c" "c < fleet_w" "odd r" "odd c"
        "a = Alien_init st (a_w * c + x_offset) (a_h * r + y_offset)"
      by blast
    from rc(7) have "rect_x (alien_rect a) = x_offset + c * a_w"
      "rect_y (alien_rect a) = y_offset + r * a_h"
      "alien_x a = rat_of_int (x_offset + c * a_w)"
      "alien_y a = rat_of_int (y_offset + r * a_h)"
      by (simp_all add: Alien_init_def rotated_image_rect_def Let_def mult.commute add.commute)
    with rc show ?thesis by blast
  qed
  with eq count show ?thesis by blast
qed

theorem create_rectangle_fleet_checkerboard_witness:
  "length (filter (at_cell (40 * 1 + 640) (40 * 1 + 20))
     (fleet (create_rectangle_fleet Settings_init 13 19 40 40 640 20
        \<lparr>fleet = [], fleet_direction = 1, fleet_drop_speed = 40\<rparr>))) = 1
   \<and> length (filter (at_cell (40 * 1 + 640) (40 * 2 + 20))
     (fleet (create_rectangle_fleet Settings_init 13 19 40 40 640 20
        \<lparr>fleet = [], fleet_direction = 1, fleet_drop_speed = 40\<rparr>))) = 0"
proof -
  have nz: "(40 :: int) \<noteq> 0" by simp
  have c0: "(0 :: int) \<le> 1" and c1: "(1 :: int) < 19" and c2: "(1 :: int) < 13"
    and c3: "(0 :: int) \<le> 2" and c4: "(2 :: int) < 19"
    by simp_all
  from create_rectangle_fleet_checkerboard [OF nz nz c0 c1 c0 c2, of 640 20 Settings_init
      "\<lparr>fleet = [], fleet_direction = 1, fleet_drop_speed = 40\<rparr>"]
    create_rectangle_fleet_checkerboard [OF nz nz c3 c4 c0 c2, of 640 20 Settings_init
      "\<lparr>fleet = [], fleet_direction = 1, fleet_drop_speed = 40\<rparr>"]
  show ?thesis by simp
qed

section \<open>Firing\<close>

text \<open>
  C5. \<open>fire_bullet\<close> succeeds exactly when the number of bullets is below the cap: then it
  adds one bullet whose mid-left point is the ship's and returns \<open>True\<close>; otherwise it
  returns \<open>False\<close> and changes nothing. A pool within the cap stays within it, and with a cap
  of 50 and an empty pool, 51 calls in a row give 50 successes and then a failure, the pool
  holding 50 bullets.
\<close>

theorem fire_bullet_cap:
  "(int (length (arsenal sh)) < bullet_amount st \<longrightarrow>
      fire_bullet st sh = (sh\<lparr>arsenal := arsenal sh @ [Bullet_init st sh]\<rparr>, True)
      \<and> length (arsenal (fst (fire_bullet st sh))) = length (arsenal sh) + 1
      \<and> rect_midleft (bullet_rect (Bullet_init st sh)) = rect_midleft (ship_rect sh))
   \<and> (\<not> int (length (arsenal sh)) < bullet_amount st \<longrightarrow> fire_bullet st sh = (sh, False))
   \<and> (snd (fire_bullet st sh) \<longleftrightarrow> int (length (arsenal sh)) < bullet_amount st)
   \<and> (int (length (arsenal sh)) \<le> bullet_amount st \<longrightarrow>
        int (length (arsenal (fst (fire_bullet st sh)))) \<le> bullet_amount st)
   \<and> (bullet_amount st = 50 \<and> arsenal sh = [] \<longrightarrow>
        snd (fire_times st 51 sh) = replicate 50 True @ [False]
        \<and> length (arsenal (fst (fire_times st 50 sh))) = 50
        \<and> length (arsenal (fst (fire_times st 51 sh))) = 50)"
proof -
  have a: "int (length (arsenal sh)) < bullet_amount st \<longrightarrow>
      fire_bullet st sh = (sh\<lparr>arsenal := arsenal sh @ [Bullet_init st sh]\<rparr>, True)
      \<and> length (arsenal (fst (fire_bullet st sh))) = length (arsenal sh) + 1
      \<and> rect_midleft (bullet_rect (Bullet_init st sh)) = rect_midleft (ship_rect sh)"
    by (simp add: fire_bullet_def Let_def Bullet_init_midleft)
  have b: "\<not> int (length (arsenal sh)) < bullet_amount st \<longrightarrow> fire_bullet st sh = (sh, False)"
    by (simp add: fire_bullet_def)
  have c: "snd (fire_bullet st sh) \<longleftrightarrow> int (length (arsenal sh)) < bullet_amount st"
    by (simp add: fire_bullet_def Let_def)
  have d: "int (length (arsenal sh)) \<le> bullet_amount st \<longrightarrow>
        int (length (arsenal (fst (fire_bullet st sh)))) \<le> bullet_amount st"
    by (simp add: fire_bullet_def Let_def)
  have e: "snd (fire_times st 51 sh) = replicate 50 True @ [False]
        \<and> length (arsenal (fst (fire_times st 50 sh))) = 50
        \<and> length (arsenal (fst (fire_times st 51 sh))) = 50"
    if "bullet_amount st = 50" and "arsenal sh = []"
    using fire_times_run [of st 51 sh] fire_times_run [of st 50 sh] that by simp
  from a b c d e show ?thesis by blast
qed

theorem fire_bullet_cap_witness:
  "fire_bullet Settings_init (Ship_init Settings_init) =
     ((Ship_init Settings_init)\<lparr>arsenal := [Bullet_init Settings_init (Ship_init Settings_init)]\<rparr>, True)
   \<and> rect_midleft (bullet_rect (Bullet_init Settings_init (Ship_init Settings_init))) = (0, 400)
   \<and> snd (fire_times Settings_init 51 (Ship_init Settings_init)) = replicate 50 True @ [False]
   \<and> length (arsenal (fst (fire_times Settings_init 51 (Ship_init Settings_init)))) = 50"
proof -
  have cap: "bullet_amount Settings_init = 50"
    by (simp add: Settings_init_def initialize_dynamic_settings_def)
  have empty: "arsenal (Ship_init Settings_init) = []"
    by (simp add: Ship_init_def center_ship_def Let_def)
  have "ship_rect (Ship_init Settings_init) =
      set_midleft (rotated_image_rect (ship_w Settings_init) (ship_h Settings_init))
        (rect_midleft (screen_rect Settings_init))"
    by (simp add: Ship_init_def center_ship_def Let_def)
  then have "rect_midleft (ship_rect (Ship_init Settings_init)) =
      rect_midleft (screen_rect Settings_init)"
    by (simp only: rect_midleft_set_midleft)
  also have "\<dots> = (0, 400)"
    by (simp add: rect_midleft_def screen_rect_def rect_centery_def c_half_def Settings_init_def
        initialize_dynamic_settings_def)
  finally have mid: "rect_midleft (ship_rect (Ship_init Settings_init)) = (0, 400)" .
  from fire_bullet_cap [of "Ship_init Settings_init" Settings_init] cap empty mid
  show ?thesis by simp
qed

section \<open>Order of the scores\<close>



section \<open>Life loss\<close>

text \<open>
  C2, as amended. A life-loss event with lives left decrements the lives by one, empties
  the arsenal, lays the fleet out again and leaves game-active, score and level as they
  are; with no lives left it sets game-active to false. In a session started with 3 lives,
  two events in a row bring the lives to 1, a third brings them to 0 with game-active still
  true, and only the fourth sets game-active to false. The layout returns normally when the
  unit's dimensions are not zero and the widths are in the range of \<open>layout_in_range\<close>, as
  those of the game are.
\<close>

theorem life_loss_events:
  assumes "alien_h (settings g) \<noteq> 0" and "alien_w (settings g) \<noteq> 0"
    and "layout_in_range (settings g)"
  shows "(0 < ships_left (game_stats g) \<longrightarrow>
           (\<exists>af. create_fleet (settings g) ((alien_fleet g)\<lparr>fleet := []\<rparr>) = Inr af
              \<and> check_game_status g =
                  Inr (g\<lparr>game_stats := (game_stats g)\<lparr>ships_left := ships_left (game_stats g) - 1\<rparr>,
                         ship := (ship g)\<lparr>arsenal := []\<rparr>, alien_fleet := af\<rparr>)))
       \<and> (ships_left (game_stats g) \<le> 0 \<longrightarrow> check_game_status g = Inr (g\<lparr>game_active := False\<rparr>))
       \<and> (ships_left (game_stats g) = 3 \<and> game_active g \<longrightarrow>
            (\<exists>g2 g3 g4. life_losses 2 g = Inr g2 \<and> ships_left (game_stats g2) = 1 \<and> game_active g2
               \<and> life_losses 3 g = Inr g3 \<and> ships_left (game_stats g3) = 0 \<and> game_active g3
               \<and> life_losses 4 g = Inr g4 \<and> ships_left (game_stats g4) = 0 \<and> \<not> game_active g4))
       \<and> lives_after 2 = Inr (1, True) \<and> lives_after 3 = Inr (0, True)
       \<and> lives_after 4 = Inr (0, False)"
proof -
  have a: "0 < ships_left (game_stats g) \<longrightarrow>
           (\<exists>af. create_fleet (settings g) ((alien_fleet g)\<lparr>fleet := []\<rparr>) = Inr af
              \<and> check_game_status g =
                  Inr (g\<lparr>game_stats := (game_stats g)\<lparr>ships_left := ships_left (game_stats g) - 1\<rparr>,
                         ship := (ship g)\<lparr>arsenal := []\<rparr>, alien_fleet := af\<rparr>))"
    using check_game_status_lives [OF assms] by blast
  have b: "ships_left (game_stats g) \<le> 0 \<longrightarrow> check_game_status g = Inr (g\<lparr>game_active := False\<rparr>)"
    using check_game_status_over [of g] by simp
  have c: "\<exists>g2 g3 g4. life_losses 2 g = Inr g2 \<and> ships_left (game_stats g2) = 1 \<and> game_active g2
               \<and> life_losses 3 g = Inr g3 \<and> ships_left (game_stats g3) = 0 \<and> game_active g3
               \<and> life_losses 4 g = Inr g4 \<and> ships_left (game_stats g4) = 0 \<and> \<not> game_active g4"
    if three: "ships_left (game_stats g) = 3" and act: "game_active g"
  proof -
    have "int 2 \<le> ships_left (game_stats g)" using three by simp
    from life_losses_playing [OF assms this] three act obtain g2 where
      g2: "life_losses 2 g = Inr g2" "ships_left (game_stats g2) = 1" "game_active g2"
      by auto
    have "ships_left (game_stats g) = int 3" using three by simp
    from life_losses_end [OF assms this] act obtain g3 g4 where
      g3: "life_losses 3 g = Inr g3" "ships_left (game_stats g3) = 0" "game_active g3"
        "life_losses (Suc 3) g = Inr g4" "ships_left (game_stats g4) = 0" "\<not> game_active g4"
      by auto
    have "Suc 3 = 4" by simp
    with g3(4) have "life_losses 4 g = Inr g4" by (simp del: life_losses.simps)
    with g2 g3 show ?thesis by blast
  qed
  from a b c lives_after_values show ?thesis by blast
qed

theorem life_loss_events_witness:
  "\<exists>g3. life_losses 3
      \<lparr>settings = Settings_init,
       game_stats = \<lparr>max_score = 0, hi_score = 0, ships_left = 3, score = 0, level = 1\<rparr>,
       ship = Ship_init Settings_init,
       alien_fleet = \<lparr>fleet = [], fleet_direction = 1, fleet_drop_speed = 40\<rparr>,
       game_active = True\<rparr> = Inr g3 \<and> ships_left (game_stats g3) = 0 \<and> game_active g3"
proof -
  let ?g = "\<lparr>settings = Settings_init,
       game_stats = \<lparr>max_score = 0, hi_score = 0, ships_left = 3, score = 0, level = 1\<rparr>,
       ship = Ship_init Settings_init,
       alien_fleet = \<lparr>fleet = [], fleet_direction = 1, fleet_drop_speed = 40\<rparr>,
       game_active = True\<rparr>"
  have h: "alien_h (settings ?g) \<noteq> 0" "alien_w (settings ?g) \<noteq> 0"
    "layout_in_range (settings ?g)"
    using Settings_init_dims Settings_init_in_range by simp_all
  have "ships_left (game_stats ?g) = 3 \<and> game_active ?g" by simp
  with life_loss_events [OF h] show ?thesis by blast
qed

text \<open>
  C2 as stated ends the game at the third collision. In the code the third collision of a
  new session brings the lives to 0 and the game is still active after it.
\<close>

theorem third_collision_keeps_playing:
  "lives_after 3 = Inr (0, True) \<and> lives_after 3 \<noteq> Inr (0, False)"
  using lives_after_values by simp

section \<open>What a restart keeps\<close>

text \<open>
  C10. \<open>reset_stats\<close> assigns the lives, the score and the level and nothing else:
  \<open>max_score\<close> and \<open>hi_score\<close> are unchanged, and so they are after \<open>restart_game\<close>, which
  returns normally whenever the alien's dimensions are not zero and the widths are in the
  range of \<open>layout_in_range\<close>.
\<close>

theorem reset_stats_keeps_scores:
  "max_score (reset_stats st gs) = max_score gs
   \<and> hi_score (reset_stats st gs) = hi_score gs
   \<and> ships_left (reset_stats st gs) = starting_ship_count st
   \<and> score (reset_stats st gs) = 0
   \<and> level (reset_stats st gs) = 1
   \<and> reset_stats st gs = gs\<lparr>ships_left := starting_ship_count st, score := 0, level := 1\<rparr>
   \<and> (alien_h (settings g) \<noteq> 0 \<and> alien_w (settings g) \<noteq> 0
        \<and> layout_in_range (settings g) \<longrightarrow>
        (\<exists>g'. restart_game g = Inr g'
           \<and> max_score (game_stats g') = max_score (game_stats g)
           \<and> hi_score (game_stats g') = hi_score (game_stats g)
           \<and> ships_left (game_stats g') = 3
           \<and> score (game_stats g') = 0
           \<and> level (game_stats g') = 1))"
proof -
  have "\<exists>g'. restart_game g = Inr g'
           \<and> max_score (game_stats g') = max_score (game_stats g)
           \<and> hi_score (game_stats g') = hi_score (game_stats g)
           \<and> ships_left (game_stats g') = 3
           \<and> score (game_stats g') = 0
           \<and> level (game_stats g') = 1"
    if "alien_h (settings g) \<noteq> 0" and "alien_w (settings g) \<noteq> 0"
      and "layout_in_range (settings g)"
  proof -
    from restart_game_ok [OF that] obtain g' where
      "restart_game g = Inr g'"
      "game_stats g' = reset_stats (initialize_dynamic_settings (settings g)) (game_stats g)"
      by blast
    then show ?thesis
      by (simp add: reset_stats_def initialize_dynamic_settings_def)
  qed
  then show ?thesis by (simp add: reset_stats_def)
qed

theorem reset_stats_keeps_scores_witness:
  "\<exists>g'. restart_game
      \<lparr>settings = Settings_init,
       game_stats = \<lparr>max_score = 700, hi_score = 900, ships_left = 0, score = 650, level = 4\<rparr>,
       ship = Ship_init Settings_init,
       alien_fleet = \<lparr>fleet = [], fleet_direction = 1, fleet_drop_speed = 40\<rparr>,
       game_active = False\<rparr> = Inr g'
     \<and> max_score (game_stats g') = 700 \<and> hi_score (game_stats g') = 900
     \<and> ships_left (game_stats g') = 3 \<and> score (game_stats g') = 0 \<and> level (game_stats g') = 1"
proof -
  let ?g = "\<lparr>settings = Settings_init,
       game_stats = \<lparr>max_score = 700, hi_score = 900, ships_left = 0, score = 650, level = 4\<rparr>,
       ship = Ship_init Settings_init,
       alien_fleet = \<lparr>fleet = [], fleet_direction = 1, fleet_drop_speed = 40\<rparr>,
       game_active = False\<rparr>"
  have h: "alien_h (settings ?g) \<noteq> 0 \<and> alien_w (settings ?g) \<noteq> 0
      \<and> layout_in_range (settings ?g)"
    using Settings_init_dims Settings_init_in_range by simp
  from reset_stats_keeps_scores [of Settings_init "game_stats ?g" ?g] h show ?thesis
    by simp
qed

section \<open>Fleet advance\<close>



section \<open>Collision resolution\<close>

text \<open>
  C4, as amended. After one \<open>check_collisions\<close> call no projectile that overlapped an enemy
  in the input remains in the pool, and the other projectiles all remain. Every projectile
  removed is listed under exactly one destroyed enemy, which it overlapped: once consumed,
  it is not matched against a second enemy. An enemy is destroyed exactly when it overlaps
  a projectile that no earlier enemy of the group overlaps, so no enemy left overlaps a
  projectile left; every enemy is either left or destroyed once. Each destroyed enemy
  adds \<open>alien_points\<close> to the score once.
\<close>

theorem check_collisions_resolution:
  assumes "AlienFleet_check_collisions af bs = (collisions, af', left)"
  shows "left = filter (\<lambda>b. \<not> list_ex (\<lambda>a. hits a b) (fleet af)) bs
       \<and> mset bs = mset left + mset (concat (map snd collisions))
       \<and> mset (fleet af) = mset (map fst collisions) + mset (fleet af')
       \<and> list_all (\<lambda>(a, bl). bl \<noteq> [] \<and> list_all (hits a) bl) collisions
       \<and> list_all (\<lambda>a. list_all (\<lambda>b. \<not> hits a b) left) (fleet af')
       \<and> (fleet af = pre @ a # post \<longrightarrow>
            (\<exists>c1 c2 al1 al2.
               collisions = c1 @ (if list_ex (hits a) (untouched pre bs)
                                  then [(a, filter (hits a) (untouched pre bs))] else []) @ c2
             \<and> fleet af' = al1 @ (if list_ex (hits a) (untouched pre bs) then [] else [a]) @ al2
             \<and> length c1 + length al1 = length pre))
       \<and> score (GameStats_update st collisions gs)
           = score gs + alien_points st * int (length collisions)
       \<and> int (length collisions) = int (length (fleet af)) - int (length (fleet af'))
       \<and> fleet_direction af' = fleet_direction af"
proof -
  from assms have c: "collisions = fst (groupcollide (fleet af) bs)"
    and f: "fleet af' = fst (snd (groupcollide (fleet af) bs))"
    and l: "left = snd (snd (groupcollide (fleet af) bs))"
    and d: "fleet_direction af' = fleet_direction af"
    by (auto simp: AlienFleet_check_collisions_def split: prod.splits)
  have t1: "left = filter (\<lambda>b. \<not> list_ex (\<lambda>a. hits a b) (fleet af)) bs"
    unfolding l groupcollide_left by (simp add: untouched_def)
  have t2: "mset bs = mset left + mset (concat (map snd collisions))"
    unfolding l c by (rule groupcollide_bullets)
  have t3: "mset (fleet af) = mset (map fst collisions) + mset (fleet af')"
    unfolding f c by (rule groupcollide_aliens)
  have t4: "list_all (\<lambda>(a, bl). bl \<noteq> [] \<and> list_all (hits a) bl) collisions"
    unfolding c by (rule groupcollide_entries)
  have t5: "list_all (\<lambda>a. list_all (\<lambda>b. \<not> hits a b) left) (fleet af')"
  proof -
    have "\<not> hits x b" if "x \<in> set (fleet af')" and "b \<in> set left" for x b
    proof -
      from that(1) have "x \<in># mset (map fst collisions) + mset (fleet af')" by simp
      then have "x \<in># mset (fleet af)" by (simp only: t3)
      then have "x \<in> set (fleet af)" by simp
      moreover from that(2) have "\<not> list_ex (\<lambda>a. hits a b) (fleet af)"
        unfolding t1 by simp
      ultimately show ?thesis by (auto simp: list_ex_iff)
    qed
    then show ?thesis by (simp add: list_all_iff)
  qed
  have t6: "\<exists>c1 c2 al1 al2.
               collisions = c1 @ (if list_ex (hits a) (untouched pre bs)
                                  then [(a, filter (hits a) (untouched pre bs))] else []) @ c2
             \<and> fleet af' = al1 @ (if list_ex (hits a) (untouched pre bs) then [] else [a]) @ al2
             \<and> length c1 + length al1 = length pre" if split: "fleet af = pre @ a # post"
  proof -
    let ?u = "untouched pre bs"
    have len: "length (fst (groupcollide pre bs)) + length (fst (snd (groupcollide pre bs))) = length pre"
    proof -
      have "size (mset pre) = size (mset (map fst (fst (groupcollide pre bs)))
          + mset (fst (snd (groupcollide pre bs))))"
        by (subst groupcollide_aliens [of pre bs]) (rule refl)
      then show ?thesis by simp
    qed
    show ?thesis
    proof (cases "list_ex (hits a) ?u")
      case True
      have "collisions = fst (groupcollide pre bs) @ [(a, filter (hits a) ?u)]
            @ fst (groupcollide post (filter (\<lambda>b. \<not> hits a b) ?u))"
        and "fleet af' = fst (snd (groupcollide pre bs)) @ []
            @ fst (snd (groupcollide post (filter (\<lambda>b. \<not> hits a b) ?u)))"
        unfolding c f split groupcollide_append [of pre "a # post" bs]
          groupcollide_Cons [of a post ?u] using True by simp_all
      with len True show ?thesis by (simp only: if_True) blast
    next
      case False
      have "collisions = fst (groupcollide pre bs) @ [] @ fst (groupcollide post ?u)"
        and "fleet af' = fst (snd (groupcollide pre bs)) @ [a] @ fst (snd (groupcollide post ?u))"
        unfolding c f split groupcollide_append [of pre "a # post" bs]
          groupcollide_Cons [of a post ?u] using False by simp_all
      with len False show ?thesis by (simp only: if_False) blast
    qed
  qed
  have t7: "score (GameStats_update st collisions gs)
           = score gs + alien_points st * int (length collisions)"
    using GameStats_update_fields [of st collisions gs] by simp
  have t8: "int (length collisions) = int (length (fleet af)) - int (length (fleet af'))"
  proof -
    have "size (mset (fleet af)) = size (mset (map fst collisions) + mset (fleet af'))"
      by (subst t3) (rule refl)
    then show ?thesis by simp
  qed
  from t1 t2 t3 t4 t5 t6 t7 t8 d show ?thesis by blast
qed

theorem check_collisions_resolution_witness:
  "AlienFleet_check_collisions
     \<lparr>fleet = [Alien_init Settings_init 640 90, Alien_init Settings_init 720 180],
      fleet_direction = - 1, fleet_drop_speed = 40\<rparr>
     [\<lparr>bullet_rect = \<lparr>rect_x = 660, rect_y = 68, rect_w = 80, rect_h = 25\<rparr>, bullet_x = 660\<rparr>]
   = ([(Alien_init Settings_init 640 90,
        [\<lparr>bullet_rect = \<lparr>rect_x = 660, rect_y = 68, rect_w = 80, rect_h = 25\<rparr>, bullet_x = 660\<rparr>])],
      \<lparr>fleet = [Alien_init Settings_init 720 180], fleet_direction = - 1, fleet_drop_speed = 40\<rparr>,
      [])
   \<and> score (GameStats_update Settings_init
        [(Alien_init Settings_init 640 90,
          [\<lparr>bullet_rect = \<lparr>rect_x = 660, rect_y = 68, rect_w = 80, rect_h = 25\<rparr>, bullet_x = 660\<rparr>])]
        \<lparr>max_score = 0, hi_score = 0, ships_left = 3, score = 100, level = 1\<rparr>) = 150"
proof -
  have st: "alien_w Settings_init = 40" "alien_h Settings_init = 40" "alien_points Settings_init = 50"
    by (simp_all add: Settings_init_def initialize_dynamic_settings_def)
  have eq: "AlienFleet_check_collisions
     \<lparr>fleet = [Alien_init Settings_init 640 90, Alien_init Settings_init 720 180],
      fleet_direction = - 1, fleet_drop_speed = 40\<rparr>
     [\<lparr>bullet_rect = \<lparr>rect_x = 660, rect_y = 68, rect_w = 80, rect_h = 25\<rparr>, bullet_x = 660\<rparr>]
   = ([(Alien_init Settings_init 640 90,
        [\<lparr>bullet_rect = \<lparr>rect_x = 660, rect_y = 68, rect_w = 80, rect_h = 25\<rparr>, bullet_x = 660\<rparr>])],
      \<lparr>fleet = [Alien_init Settings_init 720 180], fleet_direction = - 1, fleet_drop_speed = 40\<rparr>,
      [])"
    by (simp add: AlienFleet_check_collisions_def colliderect_def Alien_init_def
        rotated_image_rect_def st)
  from check_collisions_resolution [OF eq, of _ _ _ Settings_init
      "\<lparr>max_score = 0, hi_score = 0, ships_left = 3, score = 100, level = 1\<rparr>"]
  have "score (GameStats_update Settings_init
        [(Alien_init Settings_init 640 90,
          [\<lparr>bullet_rect = \<lparr>rect_x = 660, rect_y = 68, rect_w = 80, rect_h = 25\<rparr>, bullet_x = 660\<rparr>])]
        \<lparr>max_score = 0, hi_score = 0, ships_left = 3, score = 100, level = 1\<rparr>) = 100 + 50 * 1"
    by (simp add: st)
  with eq show ?thesis by simp
qed

text \<open>
  C4 as stated leaves no enemy that overlapped a projectile. Here two enemies of one row
  overlap the same projectile: the first consumes it, and the second, which overlapped it in
  the input, is still in the fleet after the call.
\<close>

theorem overlapped_enemy_survives:
  "colliderect (alien_rect (Alien_init Settings_init 720 90))
     \<lparr>rect_x = 660, rect_y = 68, rect_w = 80, rect_h = 25\<rparr>
   \<and> fleet (fst (snd (AlienFleet_check_collisions
        \<lparr>fleet = [Alien_init Settings_init 640 90, Alien_init Settings_init 720 90],
         fleet_direction = - 1, fleet_drop_speed = 40\<rparr>
        [\<lparr>bullet_rect = \<lparr>rect_x = 660, rect_y = 68, rect_w = 80, rect_h = 25\<rparr>, bullet_x = 660\<rparr>])))
     = [Alien_init Settings_init 720 90]"
proof -
  have st: "alien_w Settings_init = 40" "alien_h Settings_init = 40"
    by (simp_all add: Settings_init_def initialize_dynamic_settings_def)
  show ?thesis
    by (simp add: AlienFleet_check_collisions_def colliderect_def Alien_init_def
        rotated_image_rect_def st)
qed

section \<open>Persistence\<close>

text \<open>
  C3, as amended. At startup a missing scores file gives \<open>hi_score = 0\<close> and the default
  record is written at once (or, when the write raises \<open>FileNotFoundError\<close>, the error is
  printed and startup goes on); a file of more than 20 bytes that holds a JSON object gives
  its \<open>hi_score\<close> field, 0 when the field is absent. A \<open>FileNotFoundError\<close> while writing the
  record is caught and printed, at startup and at quit, and a record that was written is
  read back at the next start. Nothing else is caught: a file of more than 20 bytes that
  cannot be read or parsed as a JSON object, and any other error while writing, abort.
\<close>

theorem persistence_errors:
  "(scores_path d = Missing \<and> write_raises d = None \<longrightarrow>
      init_saved_scores d gs =
        Inr (d\<lparr>scores_path := File 21 (Record [(''hi_score'', 0)])\<rparr>, gs\<lparr>hi_score := 0\<rparr>))
   \<and> (scores_path d = Missing \<and> write_raises d = Some FileNotFoundError \<longrightarrow>
      init_saved_scores d gs =
        Inr (d\<lparr>printed := printed d @ [''File not found'']\<rparr>, gs\<lparr>hi_score := 0\<rparr>))
   \<and> (20 < n \<and> scores_path d = File n (Record kv) \<longrightarrow>
      init_saved_scores d gs =
        Inr (d, gs\<lparr>hi_score := (case map_of kv ''hi_score'' of Some v \<Rightarrow> v | None \<Rightarrow> 0)\<rparr>))
   \<and> (write_raises d = None \<longrightarrow>
      save_scores d gs =
        Inr (d\<lparr>scores_path := File (dumps_size (hi_score gs)) (Record [(''hi_score'', hi_score gs)])\<rparr>)
      \<and> 20 < dumps_size (hi_score gs)
      \<and> init_saved_scores
           (d\<lparr>scores_path := File (dumps_size (hi_score gs)) (Record [(''hi_score'', hi_score gs)])\<rparr>)
           gs'
         = Inr (d\<lparr>scores_path := File (dumps_size (hi_score gs)) (Record [(''hi_score'', hi_score gs)])\<rparr>,
                gs'\<lparr>hi_score := hi_score gs\<rparr>))
   \<and> (write_raises d = Some FileNotFoundError \<longrightarrow>
      save_scores d gs = Inr (d\<lparr>printed := printed d @ [''File not found'']\<rparr>)
      \<and> quit_game d g = Inr (d\<lparr>printed := printed d @ [''File not found'']\<rparr>))
   \<and> (20 < n \<and> scores_path d = File n Malformed \<longrightarrow> init_saved_scores d gs = Inl JSONDecodeError)
   \<and> (20 < n \<and> scores_path d = File n NotAnObject \<longrightarrow> init_saved_scores d gs = Inl AttributeError)
   \<and> (20 < n \<and> scores_path d = File n (Unreadable e) \<longrightarrow> init_saved_scores d gs = Inl e)
   \<and> (write_raises d = Some e \<and> e \<noteq> FileNotFoundError \<longrightarrow> save_scores d gs = Inl e)"
proof -
  have a: "scores_path d = Missing \<and> write_raises d = None \<longrightarrow>
      init_saved_scores d gs =
        Inr (d\<lparr>scores_path := File 21 (Record [(''hi_score'', 0)])\<rparr>, gs\<lparr>hi_score := 0\<rparr>)"
    by (simp add: init_saved_scores_def save_scores_def Let_def dumps_size_0)
  have b: "scores_path d = Missing \<and> write_raises d = Some FileNotFoundError \<longrightarrow>
      init_saved_scores d gs =
        Inr (d\<lparr>printed := printed d @ [''File not found'']\<rparr>, gs\<lparr>hi_score := 0\<rparr>)"
    by (simp add: init_saved_scores_def save_scores_def Let_def)
  have c: "20 < n \<and> scores_path d = File n (Record kv) \<longrightarrow>
      init_saved_scores d gs =
        Inr (d, gs\<lparr>hi_score := (case map_of kv ''hi_score'' of Some v \<Rightarrow> v | None \<Rightarrow> 0)\<rparr>)"
    by (simp add: init_saved_scores_def stat_method_sizeof_def)
  have d: "write_raises d = None \<longrightarrow>
      save_scores d gs =
        Inr (d\<lparr>scores_path := File (dumps_size (hi_score gs)) (Record [(''hi_score'', hi_score gs)])\<rparr>)
      \<and> 20 < dumps_size (hi_score gs)
      \<and> init_saved_scores
           (d\<lparr>scores_path := File (dumps_size (hi_score gs)) (Record [(''hi_score'', hi_score gs)])\<rparr>)
           gs'
         = Inr (d\<lparr>scores_path := File (dumps_size (hi_score gs)) (Record [(''hi_score'', hi_score gs)])\<rparr>,
                gs'\<lparr>hi_score := hi_score gs\<rparr>)"
    by (simp add: init_saved_scores_def save_scores_def Let_def stat_method_sizeof_def
        dumps_size_large)
  have e: "write_raises d = Some FileNotFoundError \<longrightarrow>
      save_scores d gs = Inr (d\<lparr>printed := printed d @ [''File not found'']\<rparr>)
      \<and> quit_game d g = Inr (d\<lparr>printed := printed d @ [''File not found'']\<rparr>)"
    by (simp add: save_scores_def quit_game_def Let_def)
  have f: "20 < n \<and> scores_path d = File n Malformed \<longrightarrow> init_saved_scores d gs = Inl JSONDecodeError"
    "20 < n \<and> scores_path d = File n NotAnObject \<longrightarrow> init_saved_scores d gs = Inl AttributeError"
    "20 < n \<and> scores_path d = File n (Unreadable e) \<longrightarrow> init_saved_scores d gs = Inl e"
    by (simp_all add: init_saved_scores_def stat_method_sizeof_def)
  have g: "write_raises d = Some e \<and> e \<noteq> FileNotFoundError \<longrightarrow> save_scores d gs = Inl e"
    by (simp add: save_scores_def Let_def)
  from a b c d e f g show ?thesis by blast
qed

theorem persistence_errors_witness:
  "init_saved_scores \<lparr>scores_path = Missing, write_raises = None, printed = []\<rparr>
     \<lparr>max_score = 0, hi_score = 7, ships_left = 0, score = 0, level = 0\<rparr>
   = Inr (\<lparr>scores_path = File 21 (Record [(''hi_score'', 0)]), write_raises = None, printed = []\<rparr>,
          \<lparr>max_score = 0, hi_score = 0, ships_left = 0, score = 0, level = 0\<rparr>)
   \<and> save_scores \<lparr>scores_path = Missing, write_raises = Some FileNotFoundError, printed = []\<rparr>
     \<lparr>max_score = 0, hi_score = 7, ships_left = 0, score = 0, level = 0\<rparr>
   = Inr \<lparr>scores_path = Missing, write_raises = Some FileNotFoundError,
          printed = [''File not found'']\<rparr>"
proof -
  have "init_saved_scores \<lparr>scores_path = Missing, write_raises = None, printed = []\<rparr>
     \<lparr>max_score = 0, hi_score = 7, ships_left = 0, score = 0, level = 0\<rparr>
   = Inr (\<lparr>scores_path = File 21 (Record [(''hi_score'', 0)]), write_raises = None, printed = []\<rparr>,
          \<lparr>max_score = 0, hi_score = 0, ships_left = 0, score = 0, level = 0\<rparr>)"
    using persistence_errors [of "\<lparr>scores_path = Missing, write_raises = None, printed = []\<rparr>"
        "\<lparr>max_score = 0, hi_score = 7, ships_left = 0, score = 0, level = 0\<rparr>"]
    by simp
  moreover have "save_scores \<lparr>scores_path = Missing, write_raises = Some FileNotFoundError, printed = []\<rparr>
     \<lparr>max_score = 0, hi_score = 7, ships_left = 0, score = 0, level = 0\<rparr>
   = Inr \<lparr>scores_path = Missing, write_raises = Some FileNotFoundError,
          printed = [''File not found'']\<rparr>"
    using persistence_errors [of "\<lparr>scores_path = Missing, write_raises = Some FileNotFoundError, printed = []\<rparr>"
        "\<lparr>max_score = 0, hi_score = 7, ships_left = 0, score = 0, level = 0\<rparr>"]
    by simp
  ultimately show ?thesis by simp
qed

text \<open>
  C3 as stated never aborts. A record of 30 bytes that is not JSON aborts
  \<open>GameStats.__init__\<close>, and with it the start of the game, with \<open>JSONDecodeError\<close>; a
  \<open>PermissionError\<close> raised by the write leaves \<open>save_scores\<close> uncaught.
\<close>

theorem malformed_record_aborts_startup:
  "GameStats_init Settings_init
     \<lparr>scores_path = File 30 Malformed, write_raises = None, printed = []\<rparr>
   = Inl JSONDecodeError
   \<and> AlienInvasion_init \<lparr>scores_path = File 30 Malformed, write_raises = None, printed = []\<rparr>
   = Inl JSONDecodeError
   \<and> save_scores \<lparr>scores_path = Missing, write_raises = Some PermissionError, printed = []\<rparr>
     \<lparr>max_score = 0, hi_score = 7, ships_left = 0, score = 0, level = 0\<rparr>
   = Inl PermissionError"
  by (simp add: AlienInvasion_init_def GameStats_init_def init_saved_scores_def save_scores_def
      stat_method_sizeof_def)

section \<open>The ship and the screen\<close>

text \<open>
  C1 does not hold of the code. \<open>_update_ship_movement\<close> tests the edges of the rect before
  it moves the ship by a whole step and does not clamp afterwards. Once the speed has been
  scaled (11 after the first level), a ship that starts from the centre with the up key
  held is at \<open>y = 6\<close> after 34 frames, still passes the test, and is at \<open>y = -5\<close> after the
  35th: the top edge is above the screen. All positions are whole numbers, so this is so
  for every conversion \<open>to_px\<close> that leaves whole numbers as they are.
\<close>

theorem ship_leaves_screen:
  assumes "\<And>k. to_px (rat_of_int k) = k"
  shows "ship_speed (increase_difficulty Settings_init) = 11
   \<and> rect_top (ship_rect (Ship_init (increase_difficulty Settings_init))) = 380
   \<and> rect_top (ship_rect ((Ship_update to_px (increase_difficulty Settings_init) ^^ 34)
        ((Ship_init (increase_difficulty Settings_init))\<lparr>moving_up := True\<rparr>))) = 6
   \<and> rect_top (ship_rect ((Ship_update to_px (increase_difficulty Settings_init) ^^ 35)
        ((Ship_init (increase_difficulty Settings_init))\<lparr>moving_up := True\<rparr>))) = - 5
   \<and> rect_top (screen_rect (increase_difficulty Settings_init)) = 0"
proof -
  let ?st = "increase_difficulty Settings_init"
  let ?sh = "(Ship_init ?st)\<lparr>moving_up := True\<rparr>"
  have speed: "ship_speed ?st = 11"
    using increase_difficulty_first by simp
  then have speed': "ship_speed ?st = rat_of_int 11" by simp
  have rect: "ship_rect (Ship_init ?st) = \<lparr>rect_x = 0, rect_y = 380, rect_w = 60, rect_h = 40\<rparr>"
    by (simp add: Ship_init_def center_ship_def Let_def set_midleft_def rect_midleft_def
        rect_centery_def c_half_def screen_rect_def rotated_image_rect_def
        increase_difficulty_static Settings_init_def initialize_dynamic_settings_def)
  have y: "ship_y ?sh = rat_of_int (rect_y (ship_rect ?sh))"
    by (simp add: Ship_init_def center_ship_def Let_def)
  have flags: "moving_up ?sh" "\<not> moving_down ?sh" "arsenal ?sh = []"
    by (simp_all add: Ship_init_def center_ship_def Let_def)
  have k: "rect_y (ship_rect ?sh) = 380" using rect by simp
  have v: "(0 :: int) < 11" by simp
  have "int 34 * 11 < rect_y (ship_rect ?sh) + 11" unfolding k by simp
  from Ship_update_up_run [OF assms speed' v flags y this]
  have r34: "rect_top (ship_rect ((Ship_update to_px ?st ^^ 34) ?sh)) = 6"
    by (simp add: rect_top_def rect)
  have "int 35 * 11 < rect_y (ship_rect ?sh) + 11" unfolding k by simp
  from Ship_update_up_run [OF assms speed' v flags y this]
  have r35: "rect_top (ship_rect ((Ship_update to_px ?st ^^ 35) ?sh)) = - 5"
    by (simp add: rect_top_def rect)
  have top: "rect_top (ship_rect (Ship_init ?st)) = 380"
    by (simp add: rect rect_top_def)
  have scr: "rect_top (screen_rect ?st) = 0"
    by (simp add: rect_top_def screen_rect_def)
  from speed top r34 r35 scr show ?thesis by blast
qed

theorem ship_leaves_screen_witness:
  "rect_top (ship_rect ((Ship_update round (increase_difficulty Settings_init) ^^ 35)
        ((Ship_init (increase_difficulty Settings_init))\<lparr>moving_up := True\<rparr>))) = - 5
   \<and> rect_top (ship_rect ((Ship_update py_int (increase_difficulty Settings_init) ^^ 35)
        ((Ship_init (increase_difficulty Settings_init))\<lparr>moving_up := True\<rparr>))) = - 5
   \<and> rect_top (screen_rect (increase_difficulty Settings_init)) = 0"
proof -
  have r: "round (rat_of_int k) = k" for k by simp
  have t: "py_int (rat_of_int k) = k" for k by (rule py_int_of_int)
  from ship_leaves_screen [of round, OF r] ship_leaves_screen [of py_int, OF t]
  show ?thesis by blast
qed

section \<open>The ship at the base speed\<close>

text \<open>
  With the settings of a new game (speed 10, screen height 800) the ship, which starts at
  \<open>y = 380\<close>, stays on multiples of 10 and within the screen after every update, whatever
  keys are held and for however long.
\<close>

theorem ship_on_screen_at_base_speed:
  assumes "\<And>k. to_px (rat_of_int k) = k"
  shows "0 \<le> rect_top (ship_rect (hold_keys to_px Settings_init ks (Ship_init Settings_init)))
   \<and> rect_bottom (ship_rect (hold_keys to_px Settings_init ks (Ship_init Settings_init)))
       \<le> rect_bottom (screen_rect Settings_init)"
proof -
  have st: "ship_speed Settings_init = 10" "screen_h Settings_init = 800"
    by (simp_all add: Settings_init_def initialize_dynamic_settings_def)
  have "on_grid (Ship_init Settings_init)"
    by (simp add: on_grid_def Ship_init_def center_ship_def Let_def set_midleft_def
        rect_midleft_def rect_centery_def c_half_def screen_rect_def rotated_image_rect_def
        Settings_init_def initialize_dynamic_settings_def)
  then have "on_grid (hold_keys to_px Settings_init ks (Ship_init Settings_init))"
    by (rule hold_keys_on_grid [OF assms st])
  then show ?thesis
    by (simp add: on_grid_def rect_top_def rect_bottom_def screen_rect_def st)
qed

theorem ship_on_screen_at_base_speed_witness:
  "0 \<le> rect_top (ship_rect (hold_keys round Settings_init
       [(True, False), (False, True), (True, True)] (Ship_init Settings_init)))
   \<and> rect_bottom (ship_rect (hold_keys round Settings_init
       [(True, False), (False, True), (True, True)] (Ship_init Settings_init)))
       \<le> rect_bottom (screen_rect Settings_init)"
proof -
  have r: "round (rat_of_int k) = k" for k by simp
  from ship_on_screen_at_base_speed [of round, OF r] show ?thesis .
qed

section \<open>How far the ship can leave the screen\<close>

text \<open>
  At any positive speed the ship stays less than one step outside the screen, for every
  conversion that is monotone and leaves whole numbers as they are: if the position is
  within one step of the screen (as it is at the centre), then after any number of updates,
  whatever keys are held, the position is above \<open>-speed\<close> and its lower end is below the
  screen height plus \<open>speed\<close>; the rect is less than one pixel from the position.
\<close>

theorem ship_overshoot_below_one_step:
  assumes "\<And>k. to_px (rat_of_int k) = k"
    and "mono to_px"
    and "0 < ship_speed st" and "near_screen to_px st sh"
  shows "near_screen to_px st (hold_keys to_px st ks sh)
       \<and> - ship_speed st < ship_y (hold_keys to_px st ks sh)
       \<and> ship_y (hold_keys to_px st ks sh)
             + rat_of_int (rect_h (ship_rect (hold_keys to_px st ks sh)))
           < rat_of_int (screen_h st) + ship_speed st
       \<and> - ship_speed st - 1 < rat_of_int (rect_top (ship_rect (hold_keys to_px st ks sh)))
       \<and> rat_of_int (rect_bottom (ship_rect (hold_keys to_px st ks sh)))
           < rat_of_int (screen_h st) + ship_speed st + 1"
proof -
  let ?sh = "hold_keys to_px st ks sh"
  have near: "near_screen to_px st ?sh"
    using assms by (rule hold_keys_near_screen)
  then have n: "rect_y (ship_rect ?sh) = to_px (ship_y ?sh)"
    "rect_h (ship_rect ?sh) \<le> screen_h st" "- ship_speed st < ship_y ?sh"
    "ship_y ?sh < rat_of_int (screen_h st - rect_h (ship_rect ?sh)) + ship_speed st"
    by (simp_all add: near_screen_def)
  from n(4) have low: "ship_y ?sh + rat_of_int (rect_h (ship_rect ?sh))
      < rat_of_int (screen_h st) + ship_speed st"
    by simp
  from px_near [OF assms(1,2), of "ship_y ?sh"]
  have px: "ship_y ?sh - 1 < rat_of_int (to_px (ship_y ?sh))"
    "rat_of_int (to_px (ship_y ?sh)) < ship_y ?sh + 1"
    by simp_all
  from px(1) n(3) have top: "- ship_speed st - 1 < rat_of_int (to_px (ship_y ?sh))"
    by linarith
  from px(2) low have "rat_of_int (to_px (ship_y ?sh)) + rat_of_int (rect_h (ship_rect ?sh))
      < rat_of_int (screen_h st) + ship_speed st + 1"
    by linarith
  then have bottom: "rat_of_int (to_px (ship_y ?sh) + rect_h (ship_rect ?sh))
      < rat_of_int (screen_h st) + ship_speed st + 1"
    by simp
  from near n(3) low top bottom show ?thesis
    by (simp add: rect_top_def rect_bottom_def n(1))
qed

theorem ship_overshoot_below_one_step_witness:
  "- 11 - 1 < rat_of_int (rect_top (ship_rect (hold_keys round (increase_difficulty Settings_init)
       [(True, False), (True, False)] (Ship_init (increase_difficulty Settings_init)))))
   \<and> rat_of_int (rect_bottom (ship_rect (hold_keys round (increase_difficulty Settings_init)
       [(True, False), (True, False)] (Ship_init (increase_difficulty Settings_init)))))
       < 800 + 11 + 1"
proof -
  let ?st = "increase_difficulty Settings_init"
  have st: "ship_speed ?st = 11" "screen_h ?st = 800"
    using increase_difficulty_first
    by (simp_all add: increase_difficulty_static Settings_init_def initialize_dynamic_settings_def)
  have pos: "0 < ship_speed ?st" by (simp add: st)
  have dims: "ship_w ?st = 40" "ship_h ?st = 60" "screen_w ?st = 1200"
    by (simp_all add: increase_difficulty_static Settings_init_def initialize_dynamic_settings_def)
  have near: "near_screen round ?st (Ship_init ?st)"
    by (simp add: near_screen_def Ship_init_def center_ship_def Let_def set_midleft_def
        rect_midleft_def rect_centery_def c_half_def screen_rect_def rotated_image_rect_def
        st dims)
  have r: "round (rat_of_int k) = k" for k by simp
  have m: "mono (round :: rat \<Rightarrow> int)" by (rule monoI) (rule round_mono)
  from ship_overshoot_below_one_step [of round, OF r m pos near, of "[(True, False), (True, False)]"]
  show ?thesis by (simp only: st) simp
qed

end
